theory Spec2Isabelle
  imports Main "HOL-Library.Sublist" "HOL-Library.Char_ord" "HOL-Library.List_Lexorder"
    "HOL-Library.Multiset"
begin

section \<open>Library functions the loaders call\<close>

subsection \<open>Regular expressions (the fragment of Python's \<open>re\<close> that the patterns use)\<close>

text \<open>
  A pattern is kept as its syntax tree: literals, \<open>\d\<close>, alternation, concatenation, a named
  group \<open>(?P<name>...)\<close> and \<open>$\<close>. A leading \<open>^\<close> is redundant under \<open>re.match\<close>, which
  anchors at the start, and \<open>(?:...)\<close> only brackets. \<open>rx_run r inp\<close> lists, in the
  backtracking order of \<open>re\<close> (left alternative first), every way \<open>r\<close> matches a prefix
  of \<open>inp\<close>: the rest of the input and the named groups in the order of their opening
  brackets.
\<close>

datatype rx = Lit string | Digit | Alt rx rx | Cat rx rx | Named string rx | Eos

type_synonym caps = "(string \<times> string) list"

fun rx_run :: "rx \<Rightarrow> string \<Rightarrow> (string \<times> caps) list" where
  "rx_run (Lit s) inp = (if prefix s inp then [(drop (length s) inp, [])] else [])"
| "rx_run Digit inp =
     (case inp of [] \<Rightarrow> [] | c # r \<Rightarrow> if c \<in> set ''0123456789'' then [(r, [])] else [])"
| "rx_run (Alt a b) inp = rx_run a inp @ rx_run b inp"
| "rx_run (Cat a b) inp =
     concat (map (\<lambda>(r1, c1). map (\<lambda>(r2, c2). (r2, c1 @ c2)) (rx_run b r1)) (rx_run a inp))"
| "rx_run (Named n a) inp =
     map (\<lambda>(r, c). (r, (n, take (length inp - length r) inp) # c)) (rx_run a inp)"
| "rx_run Eos inp = (if inp = [] \<or> inp = [CHR 0x0A] then [(inp, [])] else [])"

text \<open>\<open>re.match(pat, k)\<close>: the first match in backtracking order, as its \<open>groupdict\<close>
  (in group order), or \<open>None\<close>.\<close>

definition re_match :: "rx \<Rightarrow> string \<Rightarrow> caps option" where
  "re_match r k = (case rx_run r k of [] \<Rightarrow> None | (rest, c) # _ \<Rightarrow> Some c)"

definition matches :: "rx \<Rightarrow> string \<Rightarrow> bool" where
  "matches r k = (re_match r k \<noteq> None)"

subsection \<open>\<open>os.path.dirname\<close>, \<open>os.path.basename\<close> (posixpath)\<close>

text \<open>
  \<open>i = p.rfind('/') + 1; head = p[:i]; if head and head != '/' * len(head):
  head = head.rstrip('/'); return head\<close>, and \<open>basename\<close> returns \<open>p[i:]\<close>.
\<close>

definition path_head :: "string \<Rightarrow> string" where
  "path_head p = rev (dropWhile (\<lambda>c. c \<noteq> CHR ''/'') (rev p))"

definition dirname :: "string \<Rightarrow> string" where
  "dirname p =
     (let head = path_head p in
      if head \<noteq> [] \<and> head \<noteq> replicate (length head) (CHR ''/'')
      then rev (dropWhile (\<lambda>c. c = CHR ''/'') (rev head)) else head)"

definition basename :: "string \<Rightarrow> string" where
  "basename p = rev (takeWhile (\<lambda>c. c \<noteq> CHR ''/'') (rev p))"

section \<open>loaders/base.py\<close>

subsection \<open>Exceptions, values, the logger, the subclass hooks\<close>

datatype exn = KeyError string | TypeError | IOError | ValueError | OtherError

text \<open>The two classes the loaders catch, log and re-raise: \<open>except (IOError, ValueError)\<close>.\<close>

definition io_or_value :: "exn \<Rightarrow> bool" where
  "io_or_value e = (e = IOError \<or> e = ValueError)"

text \<open>A stored value is \<open>None\<close> or an array; \<open>get_many\<close> tests \<open>is None\<close>.\<close>

datatype 'a pyval = PyNone | PyVal 'a

datatype logrec = Debug string | Error string | Warning string

definition quoted :: "string \<Rightarrow> string" where
  "quoted s = [CHR 0x27] @ s @ [CHR 0x27]"

text \<open>
  What lies outside the loader object: the backing storage \<open>world\<close>, which the hooks read
  and may change, and the records sent to the logger \<open>log\<close>.
\<close>

record 'w env =
  world :: 'w
  glog :: "logrec list"

definition log_debug :: "string \<Rightarrow> 'w env \<Rightarrow> 'w env" where
  "log_debug m e = e\<lparr>glog := glog e @ [Debug m]\<rparr>"

definition log_error :: "string \<Rightarrow> 'w env \<Rightarrow> 'w env" where
  "log_error m e = e\<lparr>glog := glog e @ [Error m]\<rparr>"

text \<open>
  The hooks a concrete loader supplies (\<open>_special_open\<close>, \<open>_special_close\<close>,
  \<open>_special_getkeys\<close>, \<open>_special_get\<close>, all \<open>NotImplementedError\<close> in the base class) and
  \<open>str\<close> on a value. Each may raise and may change the backing storage. \<open>_special_get\<close>
  is handed \<open>self.pathobj\<close>, which may be \<open>None\<close>. What \<open>_special_get\<close> returns is a
  value (\<open>'a pyval\<close>) for a BasePckLoader and a file object for a BaseRawLoader.
\<close>

record ('w, 'p, 'v) hooks =
  special_open :: "string \<Rightarrow> 'w \<Rightarrow> (exn + 'p) \<times> 'w"
  special_close :: "'p \<Rightarrow> 'w \<Rightarrow> (exn + unit) \<times> 'w"
  special_getkeys :: "'p \<Rightarrow> 'w \<Rightarrow> (exn + string list) \<times> 'w"
  special_get :: "'p option \<Rightarrow> string \<Rightarrow> 'w \<Rightarrow> (exn + 'v) \<times> 'w"
  str_of :: "'v \<Rightarrow> string"

subsection \<open>BaseLoader, BasePckLoader\<close>

record 'p BaseLoader =
  path :: string
  pathobj :: "'p option"

text \<open>
  \<open>datakeys\<close> and \<open>datagroups\<close> are \<open>None\<close> between the reset at the start of \<open>update\<close> and
  their assignment, and stay \<open>None\<close> when \<open>update\<close> raises. \<open>pathobj\<close> is \<open>None\<close> or an opened
  object (taken to be truthy).
\<close>

record ('p, 'a) BasePckLoader = "'p BaseLoader" +
  datakeys :: "string list option"
  datagroups :: "string list option"
  datagroups_exclude :: "rx list"
  desc :: "string option"
  description :: "string option"
  cache :: "string \<rightharpoonup> 'a pyval"

type_synonym ('w, 'p, 'a) pck = "('p, 'a) BasePckLoader \<times> 'w env"

text \<open>\<open>BasePckLoader.get\<close>. \<open>key not in self.datakeys\<close> on \<open>None\<close> is a \<open>TypeError\<close>.\<close>

definition get_msg :: "string \<Rightarrow> string \<Rightarrow> string" where
  "get_msg key p = ''Getting key '' @ quoted key @ '' from '' @ p @ '' ...''"

definition fail_msg :: "string \<Rightarrow> string \<Rightarrow> string" where
  "fail_msg key p = ''Failed to get '' @ quoted key @ '' from '' @ p @ ''!''"

definition notin_msg :: "string \<Rightarrow> string \<Rightarrow> string" where
  "notin_msg key p = key @ '' is not in '' @ quoted p"

definition fetch ::
  "('w, 'p, 'v) hooks \<Rightarrow> 'p option \<Rightarrow> string \<Rightarrow> 'w env \<Rightarrow> (exn + 'v) \<times> 'w env" where
  "fetch h po key e =
     (let (r, w') = special_get h po key (world e) in (r, e\<lparr>world := w'\<rparr>))"

definition get ::
  "('w, 'p, 'a pyval) hooks \<Rightarrow> string \<Rightarrow> ('w, 'p, 'a) pck \<Rightarrow> (exn + 'a pyval) \<times> ('w, 'p, 'a) pck" where
  "get h key s =
     (let (l, e) = s in
      case datakeys l of
        None \<Rightarrow> (Inl TypeError, s)
      | Some dk \<Rightarrow>
          if key \<notin> set dk then (Inl (KeyError (notin_msg key (path l))), s)
          else case cache l key of
            Some v \<Rightarrow> (Inr v, s)
          | None \<Rightarrow>
              (case fetch h (pathobj l) key (log_debug (get_msg key (path l)) e) of
                 (Inr value, e') \<Rightarrow> (Inr value, (l\<lparr>cache := (cache l)(key \<mapsto> value)\<rparr>, e'))
               | (Inl x, e') \<Rightarrow>
                   (Inl x, (l, if io_or_value x then log_error (fail_msg key (path l)) e' else e'))))"

text \<open>
  \<open>BasePckLoader.get_many\<close>. \<open>result\<close> holds the cached value or \<open>None\<close> for each key,
  \<open>idxtodo\<close> the indices whose entry \<open>is None\<close>. The loop fetches them in order, writing each
  value into \<open>result\<close> and into the cache as it goes; an exception leaves the loop at once.
  \<open>'key' in dir()\<close> holds in the handler, for the loop has run at least once.
\<close>

definition cached_or_none :: "(string \<rightharpoonup> 'a pyval) \<Rightarrow> string list \<Rightarrow> 'a pyval list" where
  "cached_or_none c keys = map (\<lambda>k. case c k of Some v \<Rightarrow> v | None \<Rightarrow> PyNone) keys"

definition idxtodo :: "'a pyval list \<Rightarrow> nat list" where
  "idxtodo result = filter (\<lambda>i. result ! i = PyNone) [0..<length result]"

fun get_many_loop ::
  "('w, 'p, 'a pyval) hooks \<Rightarrow> string list \<Rightarrow> nat list \<Rightarrow>
   'a pyval list \<times> ('w, 'p, 'a) pck \<Rightarrow> (exn \<times> string) option \<times> 'a pyval list \<times> ('w, 'p, 'a) pck" where
  "get_many_loop h keys [] (result, l, e) = (None, result, l, e)"
| "get_many_loop h keys (i # todo) (result, l, e) =
     (let key = keys ! i in
      case fetch h (pathobj l) key (log_debug (get_msg key (path l)) e) of
        (Inr value, e') \<Rightarrow>
          get_many_loop h keys todo (result[i := value], l\<lparr>cache := (cache l)(key \<mapsto> value)\<rparr>, e')
      | (Inl x, e') \<Rightarrow> (Some (x, key), result, l, e'))"

definition get_many ::
  "('w, 'p, 'a pyval) hooks \<Rightarrow> string list \<Rightarrow> ('w, 'p, 'a) pck \<Rightarrow>
   (exn + 'a pyval list) \<times> ('w, 'p, 'a) pck" where
  "get_many h keys s =
     (let (l, e) = s; result = cached_or_none (cache l) keys; todo = idxtodo result in
      if length todo = 0 then (Inr result, s)
      else case get_many_loop h keys todo (result, l, e) of
        (None, result', l', e') \<Rightarrow> (Inr result', (l', e'))
      | (Some (x, key), result', l', e') \<Rightarrow>
          (Inl x, (l', if io_or_value x then log_error (fail_msg key (path l')) e' else e')))"

definition clear_cache :: "('w, 'p, 'a) pck \<Rightarrow> ('w, 'p, 'a) pck" where
  "clear_cache s = (let (l, e) = s in (l\<lparr>cache := Map.empty\<rparr>, e))"

definition keys :: "('w, 'p, 'a) pck \<Rightarrow> string list option" where
  "keys s = datakeys (fst s)"

definition groups :: "('w, 'p, 'a) pck \<Rightarrow> string list option" where
  "groups s = datagroups (fst s)"

text \<open>\<open>BaseLoader.close\<close>, \<open>BaseLoader.refind\<close>, \<open>BasePckLoader.get_by_group\<close>. The pattern
  \<open>'^%s/' % re.escape(group)\<close> is the literal \<open>group/\<close>; the dict comprehension keeps the
  last value of a repeated basename.\<close>

definition close ::
  "('w, 'p, 'v) hooks \<Rightarrow> ('p, 'z) BaseLoader_scheme \<times> 'w env \<Rightarrow>
   (exn + unit) \<times> ('p, 'z) BaseLoader_scheme \<times> 'w env" where
  "close h s =
     (let (l, e) = s in
      case pathobj l of
        None \<Rightarrow> (Inr (), s)
      | Some p \<Rightarrow>
          (let e1 = log_debug (''Close path '' @ path l @ ''.'') e in
           case special_close h p (world e1) of
             (Inl x, w') \<Rightarrow> (Inl x, (l, e1\<lparr>world := w'\<rparr>))
           | (Inr u, w') \<Rightarrow> (Inr (), (l\<lparr>pathobj := None\<rparr>, e1\<lparr>world := w'\<rparr>))))"

definition refind :: "rx \<Rightarrow> ('w, 'p, 'a) pck \<Rightarrow> exn + string list" where
  "refind pat s =
     (case keys s of None \<Rightarrow> Inl TypeError | Some dk \<Rightarrow> Inr (filter (matches pat) dk))"

definition get_by_group ::
  "('w, 'p, 'a pyval) hooks \<Rightarrow> string \<Rightarrow> ('w, 'p, 'a) pck \<Rightarrow>
   (exn + (string \<rightharpoonup> 'a pyval)) \<times> ('w, 'p, 'a) pck" where
  "get_by_group h grp s =
     (case refind (Lit (grp @ ''/'')) s of
        Inl x \<Rightarrow> (Inl x, s)
      | Inr allkeys \<Rightarrow>
          (case get_many h allkeys s of
             (Inl x, s') \<Rightarrow> (Inl x, s')
           | (Inr resultstuple, s') \<Rightarrow>
               (Inr (map_of (rev (zip (map basename allkeys) resultstuple))), s')))"

text \<open>
  \<open>BasePckLoader.update\<close>. The Python sets \<open>all_datagroups\<close> and \<open>exc_datagroups\<close> are lists
  without repetition here: \<open>datagroups\<close> is sorted before it is stored and the filters over
  \<open>exc_datagroups\<close> commute, so the iteration order of the sets does not show in the result.
  \<open>update_try\<close> is the body of the \<open>try\<close>; \<open>self.cache = {}\<close> follows it and is reached
  only when the body did not raise.
\<close>

definition special_getgroups :: "string list \<Rightarrow> string list" where
  "special_getgroups dk = remdups (map dirname dk)"

definition exclude_matching :: "rx list \<Rightarrow> string list \<Rightarrow> string list" where
  "exclude_matching pats ks = fold (\<lambda>pat ks. filter (\<lambda>k. \<not> matches pat k) ks) pats ks"

definition drop_groups :: "string list \<Rightarrow> string list \<Rightarrow> string list" where
  "drop_groups exc dk = fold (\<lambda>grp dk. filter (\<lambda>k. \<not> prefix grp k) dk) exc dk"

definition update_try ::
  "('w, 'p, 'a pyval) hooks \<Rightarrow> ('w, 'p, 'a) pck \<Rightarrow> (exn + unit) \<times> ('w, 'p, 'a) pck" where
  "update_try h s =
     (let (l, e) = s; e0 = log_debug (''Open path '' @ path l @ ''.'') e in
      case special_open h (path l) (world e0) of
        (Inl x, w1) \<Rightarrow> (Inl x, (l, e0\<lparr>world := w1\<rparr>))
      | (Inr p, w1) \<Rightarrow>
          (let l1 = l\<lparr>pathobj := Some p\<rparr>;
               e1 = log_debug (''Getting datakeys from '' @ path l @ '' ...'') (e0\<lparr>world := w1\<rparr>)
           in case special_getkeys h p (world e1) of
             (Inl x, w2) \<Rightarrow> (Inl x, (l1, e1\<lparr>world := w2\<rparr>))
           | (Inr ks, w2) \<Rightarrow>
               (let e2 = log_debug (''Getting datagroups from '' @ path l @ '' ...'') (e1\<lparr>world := w2\<rparr>);
                    all_datagroups = removeAll [] (special_getgroups ks);
                    dg = exclude_matching (datagroups_exclude l) all_datagroups;
                    exc_datagroups = filter (\<lambda>g. g \<notin> set dg) all_datagroups;
                    dk = drop_groups exc_datagroups ks;
                    l2 = l1\<lparr>datakeys := Some dk, datagroups := Some (sort dg)\<rparr>;
                    e3 = log_debug (''Getting description of '' @ path l @ '' ...'') e2
                in if ''description'' \<in> set dk
                   then (case special_get h (Some p) ''description'' (world e3) of
                           (Inl x, w3) \<Rightarrow> (Inl x, (l2, e3\<lparr>world := w3\<rparr>))
                         | (Inr v, w3) \<Rightarrow>
                             (Inr (), (l2\<lparr>desc := Some (str_of h v), description := Some (str_of h v)\<rparr>,
                                       e3\<lparr>world := w3\<rparr>)))
                   else (Inr (), (l2\<lparr>desc := None, description := None\<rparr>, e3)))))"

definition update ::
  "('w, 'p, 'a pyval) hooks \<Rightarrow> ('w, 'p, 'a) pck \<Rightarrow> (exn + unit) \<times> ('w, 'p, 'a) pck" where
  "update h s =
     (case close h s of
        (Inl x, s1) \<Rightarrow> (Inl x, s1)
      | (Inr u, (l1, e1)) \<Rightarrow>
          (case update_try h
                  (l1\<lparr>datakeys := None, datagroups := None, desc := None, description := None\<rparr>, e1) of
             (Inl x, (l2, e2)) \<Rightarrow>
               (Inl x, (l2, if io_or_value x
                            then log_error (''Failed to read path '' @ path l2 @ ''.'') e2 else e2))
           | (Inr u, (l2, e2)) \<Rightarrow> (Inr (), (l2\<lparr>cache := Map.empty\<rparr>, e2))))"

text \<open>
  \<open>BasePckLoader.__init__\<close>: the path checks of \<open>BaseLoader.__init__\<close> are taken as passed
  (they ask the operating system), \<open>datagroups_exclude\<close> is stored and \<open>update\<close> runs.
\<close>

definition pck_init ::
  "('w, 'p, 'a pyval) hooks \<Rightarrow> string \<Rightarrow> rx list \<Rightarrow> 'w env \<Rightarrow> (exn + unit) \<times> ('w, 'p, 'a) pck" where
  "pck_init h p excl e =
     update h (\<lparr>path = p, pathobj = None, datakeys = None, datagroups = None,
                datagroups_exclude = excl, desc = None, description = None, cache = Map.empty\<rparr>, e)"

subsection \<open>BaseRawLoader\<close>

record 'p BaseRawLoader = "'p BaseLoader" +
  filenames :: "string list option"
  filenames_exclude :: "rx list"

type_synonym ('w, 'p) raw = "'p BaseRawLoader \<times> 'w env"

definition raw_update_try ::
  "('w, 'p, 'f) hooks \<Rightarrow> ('w, 'p) raw \<Rightarrow> (exn + unit) \<times> ('w, 'p) raw" where
  "raw_update_try h s =
     (let (l, e) = s; e0 = log_debug (''Open path '' @ path l @ ''.'') e in
      case special_open h (path l) (world e0) of
        (Inl x, w1) \<Rightarrow> (Inl x, (l, e0\<lparr>world := w1\<rparr>))
      | (Inr p, w1) \<Rightarrow>
          (let e1 = log_debug (''Getting filenames from '' @ path l @ '' ...'') (e0\<lparr>world := w1\<rparr>)
           in case special_getkeys h p (world e1) of
             (Inl x, w2) \<Rightarrow> (Inl x, (l, e1\<lparr>world := w2\<rparr>))
           | (Inr fns, w2) \<Rightarrow>
               (Inr (), (l\<lparr>pathobj := Some p,
                           filenames := Some (sort (exclude_matching (filenames_exclude l) fns))\<rparr>,
                         e1\<lparr>world := w2\<rparr>))))"

definition raw_update ::
  "('w, 'p, 'f) hooks \<Rightarrow> ('w, 'p) raw \<Rightarrow> (exn + unit) \<times> ('w, 'p) raw" where
  "raw_update h s =
     (case close h s of
        (Inl x, s1) \<Rightarrow> (Inl x, s1)
      | (Inr u, (l1, e1)) \<Rightarrow>
          (case raw_update_try h (l1\<lparr>filenames := None\<rparr>, e1) of
             (Inl x, (l2, e2)) \<Rightarrow>
               (Inl x, (l2, if io_or_value x
                            then log_error (''Failed to read path '' @ path l2 @ ''.'') e2 else e2))
           | (Inr u, s2) \<Rightarrow> (Inr (), s2)))"

definition raw_init ::
  "('w, 'p, 'f) hooks \<Rightarrow> string \<Rightarrow> rx list \<Rightarrow> 'w env \<Rightarrow> (exn + unit) \<times> ('w, 'p) raw" where
  "raw_init h p excl e =
     raw_update h (\<lparr>path = p, pathobj = None, filenames = None, filenames_exclude = excl\<rparr>, e)"

definition raw_keys :: "('w, 'p) raw \<Rightarrow> string list option" where
  "raw_keys s = filenames (fst s)"

text \<open>
  \<open>BaseRawLoader.get\<close> is a \<open>contextlib.contextmanager\<close>; \<open>with_get\<close> is the statement
  \<open>with loader.get(key) as f: body\<close>. The generator runs to its \<open>yield\<close>; the body runs with
  the file object; its exception, if any, is thrown into the generator at the \<open>yield\<close>, inside
  the \<open>try\<close>, so the \<open>except\<close> clause sees it too; the \<open>finally\<close> clause closes the file object
  when the name \<open>fileobj\<close> is bound, that is when \<open>_special_get\<close> returned. \<open>fclose\<close> is the
  file object's \<open>close\<close> method; an exception it raises replaces the pending one.
\<close>

definition getfile_msg :: "string \<Rightarrow> string \<Rightarrow> string" where
  "getfile_msg key p = ''Getting file '' @ quoted key @ '' from '' @ p @ '' ...''"

definition closefile_msg :: "string \<Rightarrow> string \<Rightarrow> string" where
  "closefile_msg key p = ''Close file '' @ key @ '' in path '' @ p @ ''.''"

definition with_get ::
  "('w, 'p, 'f) hooks \<Rightarrow> ('f \<Rightarrow> 'w \<Rightarrow> (exn + unit) \<times> 'w) \<Rightarrow> string \<Rightarrow>
   ('f \<Rightarrow> 'w env \<Rightarrow> (exn + 'r) \<times> 'w env) \<Rightarrow> ('w, 'p) raw \<Rightarrow> (exn + 'r) \<times> ('w, 'p) raw" where
  "with_get h fclose key body s =
     (let (l, e) = s in
      case filenames l of
        None \<Rightarrow> (Inl TypeError, s)
      | Some fns \<Rightarrow>
          if key \<notin> set fns then (Inl (KeyError (notin_msg key (path l))), s)
          else case fetch h (pathobj l) key (log_debug (getfile_msg key (path l)) e) of
            (Inl x, e1) \<Rightarrow>
              (Inl x, (l, if io_or_value x then log_error (fail_msg key (path l)) e1 else e1))
          | (Inr fileobj, e1) \<Rightarrow>
              (case body fileobj e1 of
                 (r, e2) \<Rightarrow>
                   (let e3 = (case r of
                                Inl x \<Rightarrow> if io_or_value x then log_error (fail_msg key (path l)) e2 else e2
                              | Inr v \<Rightarrow> e2);
                        e4 = log_debug (closefile_msg key (path l)) e3
                    in case fclose fileobj (world e4) of
                      (Inl y, w5) \<Rightarrow> (Inl y, (l, e4\<lparr>world := w5\<rparr>))
                    | (Inr u, w5) \<Rightarrow> (r, (l, e4\<lparr>world := w5\<rparr>)))))"

section \<open>The resolver (cores/digger.py, known here through its tests and callers)\<close>

subsection \<open>PatternSpec and WorkUnit\<close>

datatype cardinality = SINGLE | MULTI

text \<open>\<open>NeedAll\<close> is the sentinel \<open>'ALL'\<close>.\<close>

datatype completeness = NeedAll | Needed "rx list"

text \<open>An auxiliary entry: a literal key, or a template that takes the group value.\<close>

datatype auxkey = AuxLit string | AuxTmpl "string list \<Rightarrow> string"

datatype config_error = ConfigError

text \<open>
  The fields the test classes set: \<open>itemspattern\<close>, \<open>nitems\<close> (\<open>'?'\<close> is \<open>SINGLE\<close>, \<open>'+'\<close> is
  \<open>MULTI\<close>), \<open>neededpattern\<close>, \<open>commonpattern\<close>, and \<open>_set_fignum\<close>, which computes the label
  from the first item.
\<close>

record PatternSpec =
  patterns :: "rx list"
  cardinality :: cardinality
  completeness :: completeness
  auxiliary :: "auxkey list"
  labeler :: "string \<Rightarrow> string"

text \<open>\<open>group\<close> is the tuple of the grouping-dimension values (one value in every test class).\<close>

record WorkUnit =
  wgroup :: "string list"
  primaryKeys :: "string list"
  auxiliaryKeys :: "string list"
  label :: string

fun rx_names :: "rx \<Rightarrow> string list" where
  "rx_names (Lit s) = []"
| "rx_names Digit = []"
| "rx_names (Alt a b) = rx_names a @ rx_names b"
| "rx_names (Cat a b) = rx_names a @ rx_names b"
| "rx_names (Named n a) = n # rx_names a"
| "rx_names Eos = []"

definition first_occurrences :: "'a list \<Rightarrow> 'a list" where
  "first_occurrences xs = rev (remdups (rev xs))"

text \<open>
  Modelled from the spec: the resolver \<open>Digger.generate_cores\<close> of cores/digger.py, which is
  not among the sources; only its tests and the classes that derive from it are. The
  definitions from here to \<open>resolve\<close> follow section 4.2 of the specification.

  Grouping dimensions are the named groups that appear in more than one pattern entry.
  Where no name is shared, as with a single pattern, the first named group of the primary
  pattern is the grouping dimension: the specification's scenario for one pattern reports
  the value of its first group as the group, and the classes of GTCv3 read \<open>self.group\<close>
  so. The other named groups of the primary pattern are the variant dimensions.
\<close>

definition grouping_names :: "rx list \<Rightarrow> string list" where
  "grouping_names pats =
     (let shared = filter (\<lambda>n. 2 \<le> length (filter (\<lambda>p. n \<in> set (rx_names p)) pats))
                          (first_occurrences (concat (map rx_names pats)))
      in if shared = [] then take 1 (concat (map rx_names (take 1 pats))) else shared)"

definition group_of :: "string list \<Rightarrow> caps \<Rightarrow> string list" where
  "group_of gn c = map snd (filter (\<lambda>(n, v). n \<in> set gn) c)"

definition variant_of :: "string list \<Rightarrow> caps \<Rightarrow> string list" where
  "variant_of gn c = map snd (filter (\<lambda>(n, v). n \<notin> set gn) c)"

text \<open>Modelled from the spec: step 1, the matches of the primary pattern, in key order, each with its key, its
  grouping values and its variant values.\<close>

type_synonym pmatch = "string \<times> string list \<times> string list"

definition primary_matches :: "string list \<Rightarrow> rx \<Rightarrow> string list \<Rightarrow> pmatch list" where
  "primary_matches gn p0 ks =
     concat (map (\<lambda>k. case re_match p0 k of
                         None \<Rightarrow> []
                       | Some c \<Rightarrow> [(k, group_of gn c, variant_of gn c)]) ks)"

definition pm_group :: "pmatch \<Rightarrow> string list" where
  "pm_group m = fst (snd m)"

definition pm_variant :: "pmatch \<Rightarrow> string list" where
  "pm_variant m = snd (snd m)"

text \<open>Modelled from the spec: step 3, "each distinct (group, variant) pair", the first match
  of each pair.\<close>

fun distinct_pairs :: "(string list \<times> string list) list \<Rightarrow> pmatch list \<Rightarrow> pmatch list" where
  "distinct_pairs seen [] = []"
| "distinct_pairs seen (m # ms) =
     (if snd m \<in> set seen then distinct_pairs seen ms
      else m # distinct_pairs (snd m # seen) ms)"

text \<open>Modelled from the spec: step 6, by group in the order the groups first appear, inside a
  group in match order.\<close>

definition order_by_group :: "pmatch list \<Rightarrow> pmatch list" where
  "order_by_group ms =
     concat (map (\<lambda>g. filter (\<lambda>m. pm_group m = g) ms) (first_occurrences (map pm_group ms)))"

text \<open>Modelled from the spec: steps 3a and 3c, the keys a companion pattern matches inside the group, without
  repetition, sorted.\<close>

definition companions :: "string list \<Rightarrow> string list \<Rightarrow> string list \<Rightarrow> rx \<Rightarrow> string list" where
  "companions gn g ks p =
     sort (remdups (filter (\<lambda>k. case re_match p k of
                                    None \<Rightarrow> False
                                  | Some c \<Rightarrow> group_of gn c = g) ks))"

text \<open>Modelled from the spec: step 3b. \<open>'ALL'\<close> asks for a match of every pattern entry (the primary pattern has
  one); an explicit list asks that each of its expressions matches one of the keys.\<close>

definition complete :: "completeness \<Rightarrow> string \<Rightarrow> string list list \<Rightarrow> bool" where
  "complete cp k comps =
     (case cp of
        NeedAll \<Rightarrow> list_all (\<lambda>c. c \<noteq> []) comps
      | Needed rs \<Rightarrow> list_all (\<lambda>r. list_ex (matches r) (k # concat comps)) rs)"

text \<open>Modelled from the spec: steps 4 and 5, the auxiliary keys with the group value put into
  the templates, and the label from the primary key.\<close>

fun aux_key :: "string list \<Rightarrow> auxkey \<Rightarrow> string" where
  "aux_key g (AuxLit s) = s"
| "aux_key g (AuxTmpl f) = f g"

definition mk_unit :: "PatternSpec \<Rightarrow> pmatch \<Rightarrow> string list list \<Rightarrow> WorkUnit" where
  "mk_unit spec m comps =
     \<lparr>wgroup = pm_group m, primaryKeys = fst m # concat comps,
      auxiliaryKeys = map (aux_key (pm_group m)) (auxiliary spec), label = labeler spec (fst m)\<rparr>"

definition multi_unit :: "PatternSpec \<Rightarrow> string list \<Rightarrow> string list \<Rightarrow> rx list \<Rightarrow> pmatch \<Rightarrow> WorkUnit list" where
  "multi_unit spec gn ks ps m =
     (let comps = map (companions gn (pm_group m) ks) ps
      in if complete (completeness spec) (fst m) comps then [mk_unit spec m comps] else [])"

text \<open>
  Modelled from the spec: \<open>resolve(keyStore, spec)\<close>, absent from the sources as
  \<open>Digger.generate_cores\<close>, over the list \<open>keyStore.keys()\<close>. A spec without patterns, or whose
  cardinality does not agree with the number of its patterns, is malformed. Steps 2 and 3
  build the units, steps 4 and 5 (auxiliary keys, label) are in \<open>mk_unit\<close>.
\<close>

definition resolve :: "string list \<Rightarrow> PatternSpec \<Rightarrow> config_error + WorkUnit list" where
  "resolve ks spec =
     (case patterns spec of
        [] \<Rightarrow> Inl ConfigError
      | p0 # ps \<Rightarrow>
          if (cardinality spec = SINGLE) \<noteq> (ps = []) then Inl ConfigError
          else (let gn = grouping_names (p0 # ps); pm = primary_matches gn p0 ks in
                case cardinality spec of
                  SINGLE \<Rightarrow> Inr (map (\<lambda>m. mk_unit spec m []) (order_by_group pm))
                | MULTI \<Rightarrow>
                    Inr (concat (map (multi_unit spec gn ks ps)
                                     (order_by_group (distinct_pairs [] pm))))))"

subsection \<open>The test classes of cores/tests/test\_digger.py\<close>

definition rx_seq :: "rx list \<Rightarrow> rx" where
  "rx_seq rs = foldr Cat rs (Lit [])"

text \<open>\<open>ImpDigger1\<close>: \<open>'^(?P<sect>da)/(?P<spc>(?:i|e))-(?P<fld>(?:p|m))-f$'\<close>;
  \<open>_set_fignum\<close> matches \<open>numpattern\<close> and formats \<open>'%s_%s_f' % m.groups()\<close>, else \<open>'null'\<close>.\<close>

definition ImpDigger1_numpattern :: rx where
  "ImpDigger1_numpattern =
     rx_seq [Lit ''da/'', Named ''spc'' (Alt (Lit ''i'') (Lit ''e'')), Lit ''-'',
             Named ''fld'' (Alt (Lit ''p'') (Lit ''m'')), Lit ''-f'']"

definition ImpDigger1_set_fignum :: "string \<Rightarrow> string" where
  "ImpDigger1_set_fignum item =
     (case re_match ImpDigger1_numpattern item of
        Some [(n1, a), (n2, b)] \<Rightarrow> a @ ''_'' @ b @ ''_f''
      | _ \<Rightarrow> ''null'')"

definition ImpDigger1 :: PatternSpec where
  "ImpDigger1 =
     \<lparr>patterns = [rx_seq [Named ''sect'' (Lit ''da''), Lit ''/'',
                          Named ''spc'' (Alt (Lit ''i'') (Lit ''e'')), Lit ''-'',
                          Named ''fld'' (Alt (Lit ''p'') (Lit ''m'')), Lit ''-f'', Eos]],
      cardinality = SINGLE,
      completeness = Needed [rx_seq [Lit ''da/'', Alt (Lit ''i'') (Lit ''e''), Lit ''-'',
                                     Alt (Lit ''p'') (Lit ''m''), Lit ''-f''], Lit ''g/c''],
      auxiliary = [AuxLit ''g/c'', AuxLit ''his/n''],
      labeler = ImpDigger1_set_fignum\<rparr>"

text \<open>\<open>ImpDigger2\<close>: \<open>['^(?P<sect>his)/(?P<spc>(?:i|e))$', '^(?P<sect>his)/n']\<close>,
  \<open>neededpattern = 'ALL'\<close>, label \<open>'%s' % m.groups()\<close>.\<close>

definition ImpDigger2_set_fignum :: "string \<Rightarrow> string" where
  "ImpDigger2_set_fignum item =
     (case re_match (rx_seq [Lit ''his/'', Named ''spc'' (Alt (Lit ''i'') (Lit ''e''))]) item of
        Some [(n1, a)] \<Rightarrow> a
      | _ \<Rightarrow> ''null'')"

definition ImpDigger2 :: PatternSpec where
  "ImpDigger2 =
     \<lparr>patterns = [rx_seq [Named ''sect'' (Lit ''his''), Lit ''/'',
                          Named ''spc'' (Alt (Lit ''i'') (Lit ''e'')), Eos],
                  rx_seq [Named ''sect'' (Lit ''his''), Lit ''/n'']],
      cardinality = MULTI,
      completeness = NeedAll,
      auxiliary = [AuxLit ''g/c''],
      labeler = ImpDigger2_set_fignum\<rparr>"

text \<open>\<open>ImpDigger3\<close>: \<open>['^(?P<sect>s\d)/(?P<fld>(?:p|a))$', '^(?P<sect>s\d)/(?:x|y)$']\<close>,
  \<open>neededpattern\<close> the primary pattern, \<open>'^(?P<sect>s\d)/x$'\<close> and \<open>'^(?P<sect>s\d)/y$'\<close>,
  label \<open>m.groupdict()['fld']\<close>.\<close>

definition ImpDigger3_set_fignum :: "string \<Rightarrow> string" where
  "ImpDigger3_set_fignum item =
     (case re_match (rx_seq [Lit ''s'', Digit, Lit ''/'', Named ''fld'' (Alt (Lit ''p'') (Lit ''a''))]) item of
        Some c \<Rightarrow> (case map_of c ''fld'' of Some a \<Rightarrow> a | None \<Rightarrow> ''null'')
      | None \<Rightarrow> ''null'')"

definition ImpDigger3 :: PatternSpec where
  "ImpDigger3 =
     \<lparr>patterns = [rx_seq [Named ''sect'' (Cat (Lit ''s'') Digit), Lit ''/'',
                          Named ''fld'' (Alt (Lit ''p'') (Lit ''a'')), Eos],
                  rx_seq [Named ''sect'' (Cat (Lit ''s'') Digit), Lit ''/'',
                          Alt (Lit ''x'') (Lit ''y''), Eos]],
      cardinality = MULTI,
      completeness = Needed
        [rx_seq [Named ''sect'' (Cat (Lit ''s'') Digit), Lit ''/'',
                 Named ''fld'' (Alt (Lit ''p'') (Lit ''a'')), Eos],
         rx_seq [Named ''sect'' (Cat (Lit ''s'') Digit), Lit ''/x'', Eos],
         rx_seq [Named ''sect'' (Cat (Lit ''s'') Digit), Lit ''/y'', Eos]],
      auxiliary = [AuxLit ''g/c''],
      labeler = ImpDigger3_set_fignum\<rparr>"

section \<open>An in-memory backing store\<close>

text \<open>
  Hooks over a fixed list of keys with the outcome of fetching each; the world records the
  keys handed to \<open>_special_get\<close>, in call order. A key that is not listed raises \<open>KeyError\<close>.
\<close>

definition mem_hooks :: "(string \<times> (exn + 'v)) list \<Rightarrow> (string list, unit, 'v) hooks" where
  "mem_hooks kvs =
     \<lparr>special_open = (\<lambda>p w. (Inr (), w)),
      special_close = (\<lambda>p w. (Inr (), w)),
      special_getkeys = (\<lambda>p w. (Inr (map fst kvs), w)),
      special_get = (\<lambda>po k w. (case map_of kvs k of None \<Rightarrow> Inl (KeyError k) | Some r \<Rightarrow> r, w @ [k])),
      str_of = (\<lambda>v. ''value'')\<rparr>"

definition env0 :: "string list env" where
  "env0 = \<lparr>world = [], glog = []\<rparr>"

text \<open>
  A test store: \<open>g/c\<close> and \<open>snap/x\<close> can be fetched, fetching \<open>his/n\<close> raises \<open>IOError\<close>;
  the loader over it excludes the group \<open>snap\<close>.
\<close>

definition test_store :: "(string \<times> (exn + nat pyval)) list" where
  "test_store = [(''g/c'', Inr (PyVal 7)), (''his/n'', Inl IOError), (''snap/x'', Inr (PyVal 3))]"

definition test_loader :: "(string list, unit, nat) pck" where
  "test_loader = snd (pck_init (mem_hooks test_store) ''test.npz'' [Lit ''snap''] env0)"

text \<open>The test store again, behind a path that can be opened only while nothing has been
  fetched from it (the file goes away later): the first \<open>update\<close> completes, a later one
  raises \<open>IOError\<close>.\<close>

definition flaky_hooks :: "(string list, unit, nat pyval) hooks" where
  "flaky_hooks =
     (mem_hooks test_store)\<lparr>special_open := \<lambda>p w. if w = [] then (Inr (), w) else (Inl IOError, w)\<rparr>"

definition flaky_loader :: "(string list, unit, nat) pck" where
  "flaky_loader = snd (pck_init flaky_hooks ''test.npz'' [Lit ''snap''] env0)"

text \<open>The calls a client can make on a loader besides \<open>update\<close> and \<open>clear_cache\<close>, and the
  state each leaves; \<open>keys\<close>, \<open>groups\<close> and \<open>refind\<close> only read.\<close>

datatype pck_op = Get string | GetMany "string list" | GetByGroup string | Close | Keys | Groups | Refind rx

fun run_op :: "('w, 'p, 'a pyval) hooks \<Rightarrow> pck_op \<Rightarrow> ('w, 'p, 'a) pck \<Rightarrow> ('w, 'p, 'a) pck" where
  "run_op h (Get k) s = snd (get h k s)"
| "run_op h (GetMany ks) s = snd (get_many h ks s)"
| "run_op h (GetByGroup g) s = snd (get_by_group h g s)"
| "run_op h Close s = snd (close h s)"
| "run_op h Keys s = s"
| "run_op h Groups s = s"
| "run_op h (Refind pat) s = s"

text \<open>A store with the groups \<open>his\<close> and \<open>history\<close>, loaded with the exclusion \<open>'his$'\<close>.\<close>

definition his_store :: "(string \<times> (exn + nat pyval)) list" where
  "his_store = [(''his/n'', Inr (PyVal 1)), (''history/x'', Inr (PyVal 2))]"

definition his_loader :: "(string list, unit, nat) pck" where
  "his_loader = snd (pck_init (mem_hooks his_store) ''his.npz'' [Cat (Lit ''his'') Eos] env0)"

text \<open>A raw store of three files, loaded with the exclusion \<open>'big'\<close>; the file objects are
  numbers, and closing one is recorded in the world.\<close>

definition raw_store :: "(string \<times> (exn + nat)) list" where
  "raw_store = [(''gtc.out'', Inr 1), (''bigdata.out'', Inr 2), (''data1d.out'', Inl IOError)]"

definition raw_loader :: "(string list, unit) raw" where
  "raw_loader = snd (raw_init (mem_hooks raw_store) ''run1'' [Lit ''big''] env0)"

definition mem_fclose :: "nat \<Rightarrow> string list \<Rightarrow> (exn + unit) \<times> string list" where
  "mem_fclose f w = (Inr (), w @ [''close''])"

section \<open>Properties of BasePckLoader\<close>

lemma test_loader_eq:
  "test_loader =
     (\<lparr>path = ''test.npz'', pathobj = Some (), datakeys = Some [''g/c'', ''his/n''],
       datagroups = Some [''g'', ''his''], datagroups_exclude = [Lit ''snap''],
       desc = None, description = None, cache = Map.empty\<rparr>,
      \<lparr>world = [],
       glog = [Debug ''Open path test.npz.'', Debug ''Getting datakeys from test.npz ...'',
               Debug ''Getting datagroups from test.npz ...'',
               Debug ''Getting description of test.npz ...'']\<rparr>)"
  unfolding test_loader_def pck_init_def test_store_def env0_def
  by (simp add: update_def close_def update_try_def mem_hooks_def log_debug_def
      special_getgroups_def dirname_def path_head_def exclude_matching_def drop_groups_def
      matches_def re_match_def Let_def)

lemma mem_hooks_get:
  "special_get (mem_hooks kvs) po k w =
     (case map_of kvs k of None \<Rightarrow> Inl (KeyError k) | Some r \<Rightarrow> r, w @ [k])"
  by (simp add: mem_hooks_def)

lemmas pck_eval = get_many_def get_def cached_or_none_def idxtodo_def fetch_def log_debug_def
  log_error_def io_or_value_def mem_hooks_get test_store_def Let_def

lemmas update_eval = update_def close_def update_try_def mem_hooks_def log_debug_def log_error_def
  io_or_value_def special_getgroups_def dirname_def path_head_def exclude_matching_def drop_groups_def
  matches_def re_match_def Let_def

subsection \<open>get\<close>

lemma flaky_loader_eq: "flaky_loader = test_loader"
  unfolding flaky_loader_def flaky_hooks_def pck_init_def env0_def test_loader_eq test_store_def
  by (simp add: update_eval)

lemma flaky_get: "special_get flaky_hooks = special_get (mem_hooks test_store)"
  by (simp add: flaky_hooks_def)

text \<open>
  \<open>update\<close> sets \<open>datakeys\<close> to \<open>None\<close> before it opens the path and leaves it so when it
  raises. On the loader whose path can no longer be opened, \<open>g/c\<close> is fetched and cached, a
  second \<open>update\<close> raises \<open>IOError\<close>, and from then on \<open>get\<close> raises \<open>TypeError\<close> for the
  cached key and for a key the store never had.
\<close>

theorem get_type_error_after_failed_update:
  "fst (get flaky_hooks ''g/c'' flaky_loader) = Inr (PyVal 7)
   \<and> fst (update flaky_hooks (snd (get flaky_hooks ''g/c'' flaky_loader))) = Inl IOError
   \<and> keys (snd (update flaky_hooks (snd (get flaky_hooks ''g/c'' flaky_loader)))) = None
   \<and> cache (fst (snd (update flaky_hooks (snd (get flaky_hooks ''g/c'' flaky_loader))))) ''g/c''
       = Some (PyVal 7)
   \<and> fst (get flaky_hooks ''g/c'' (snd (update flaky_hooks (snd (get flaky_hooks ''g/c'' flaky_loader)))))
       = Inl TypeError
   \<and> fst (get flaky_hooks ''no/key'' (snd (update flaky_hooks (snd (get flaky_hooks ''g/c'' flaky_loader)))))
       = Inl TypeError"
  by (simp add: flaky_loader_eq test_loader_eq get_def fetch_def flaky_get mem_hooks_get test_store_def
        keys_def update_def close_def update_try_def flaky_hooks_def mem_hooks_def log_debug_def log_error_def
        io_or_value_def Let_def)

text \<open>
  Claim C4, as the code has it. On a loader whose keys are set, as they are after every
  \<open>update\<close> that completed, \<open>get\<close> raises \<open>KeyError\<close> for a key that is not among them and
  leaves loader, backing store and log as they were. For a key that is there and not cached,
  a fetch that returns \<open>v\<close> is the only call made on the backing store; \<open>v\<close> is returned and
  cached, and \<open>get\<close> on the resulting state returns \<open>v\<close> again and changes nothing, the
  backing store included. In any state where the key is cached, \<open>get\<close> returns the cached
  value and changes nothing.
\<close>

theorem get_key_error_fetch_then_cached:
  assumes "datakeys l = Some dk"
  shows "(key \<notin> set dk \<longrightarrow> get h key (l, e) = (Inl (KeyError (notin_msg key (path l))), (l, e)))
    \<and> (key \<in> set dk \<and> cache l key = None \<and> special_get h (pathobj l) key (world e) = (Inr v, w') \<longrightarrow>
         (let s' = (l\<lparr>cache := (cache l)(key \<mapsto> v)\<rparr>,
                    e\<lparr>glog := glog e @ [Debug (get_msg key (path l))], world := w'\<rparr>)
          in get h key (l, e) = (Inr v, s') \<and> get h key s' = (Inr v, s')))
    \<and> (key \<in> set dk \<and> cache l key = Some v \<longrightarrow> get h key (l, e) = (Inr v, (l, e)))"
  using assms by (auto simp: get_def fetch_def log_debug_def)

theorem get_key_error_fetch_then_cached_witness:
  "fst (get (mem_hooks test_store) ''snap/x'' test_loader)
     = Inl (KeyError (notin_msg ''snap/x'' ''test.npz''))
   \<and> snd (get (mem_hooks test_store) ''snap/x'' test_loader) = test_loader
   \<and> fst (get (mem_hooks test_store) ''g/c'' test_loader) = Inr (PyVal 7)
   \<and> cache (fst (snd (get (mem_hooks test_store) ''g/c'' test_loader))) ''g/c'' = Some (PyVal 7)
   \<and> world (snd (snd (get (mem_hooks test_store) ''g/c'' test_loader))) = [''g/c'']
   \<and> fst (get (mem_hooks test_store) ''g/c'' (snd (get (mem_hooks test_store) ''g/c'' test_loader)))
       = Inr (PyVal 7)
   \<and> world (snd (snd (get (mem_hooks test_store) ''g/c''
                (snd (get (mem_hooks test_store) ''g/c'' test_loader))))) = [''g/c'']"
  using get_key_error_fetch_then_cached
          [where l = "fst test_loader" and dk = "[''g/c'', ''his/n'']" and key = "''snap/x''"
             and h = "mem_hooks test_store" and e = "snd test_loader"]
        get_key_error_fetch_then_cached
          [where l = "fst test_loader" and dk = "[''g/c'', ''his/n'']" and key = "''g/c''"
             and h = "mem_hooks test_store" and e = "snd test_loader" and v = "PyVal 7"
             and w' = "[''g/c'']"]
  by (simp add: test_loader_eq mem_hooks_get test_store_def Let_def)

subsection \<open>get\_many\<close>

text \<open>The loop only writes the cache; it writes no key other than those at the indices it
  is given; it never removes an entry; when it completes, every key it was given is cached;
  when it stops, it stops at the first fetch that raised.\<close>

lemma loop_fields:
  "get_many_loop h ks todo (res, l, e) = (r, res', l', e') \<Longrightarrow> l' = l\<lparr>cache := cache l'\<rparr>"
proof (induction todo arbitrary: res l e)
  case Nil
  then show ?case by simp
next
  case (Cons i todo)
  show ?case
  proof (cases "fetch h (pathobj l) (ks ! i) (log_debug (get_msg (ks ! i) (path l)) e)")
    case (Pair a e1)
    show ?thesis
    proof (cases a)
      case (Inl x)
      with Pair Cons.prems show ?thesis by (simp add: Let_def)
    next
      case (Inr v)
      with Pair Cons.prems
      have "get_many_loop h ks todo (res[i := v], l\<lparr>cache := (cache l)(ks ! i \<mapsto> v)\<rparr>, e1) = (r, res', l', e')"
        by (simp add: Let_def)
      from Cons.IH[OF this] show ?thesis by (cases l, cases l', simp)
    qed
  qed
qed

lemma loop_cache_other:
  "get_many_loop h ks todo (res, l, e) = (r, res', l', e') \<Longrightarrow>
   \<forall>i\<in>set todo. ks ! i \<noteq> k \<Longrightarrow> cache l' k = cache l k"
proof (induction todo arbitrary: res l e)
  case Nil
  then show ?case by simp
next
  case (Cons i todo)
  show ?case
  proof (cases "fetch h (pathobj l) (ks ! i) (log_debug (get_msg (ks ! i) (path l)) e)")
    case (Pair a e1)
    show ?thesis
    proof (cases a)
      case (Inl x)
      with Pair Cons.prems show ?thesis by (simp add: Let_def)
    next
      case (Inr v)
      with Pair Cons.prems
      have "get_many_loop h ks todo (res[i := v], l\<lparr>cache := (cache l)(ks ! i \<mapsto> v)\<rparr>, e1) = (r, res', l', e')"
        by (simp add: Let_def)
      from Cons.IH[OF this] Cons.prems(2)
      have "cache l' k = ((cache l)(ks ! i \<mapsto> v)) k" and "ks ! i \<noteq> k" by simp_all
      then show ?thesis by auto
    qed
  qed
qed

lemma loop_dom_mono:
  "get_many_loop h ks todo (res, l, e) = (r, res', l', e') \<Longrightarrow> dom (cache l) \<subseteq> dom (cache l')"
proof (induction todo arbitrary: res l e)
  case Nil
  then show ?case by simp
next
  case (Cons i todo)
  show ?case
  proof (cases "fetch h (pathobj l) (ks ! i) (log_debug (get_msg (ks ! i) (path l)) e)")
    case (Pair a e1)
    show ?thesis
    proof (cases a)
      case (Inl x)
      with Pair Cons.prems show ?thesis by (simp add: Let_def)
    next
      case (Inr v)
      with Pair Cons.prems
      have "get_many_loop h ks todo (res[i := v], l\<lparr>cache := (cache l)(ks ! i \<mapsto> v)\<rparr>, e1) = (r, res', l', e')"
        by (simp add: Let_def)
      from Cons.IH[OF this] have "\<forall>k. ((cache l)(ks ! i \<mapsto> v)) k \<noteq> None \<longrightarrow> cache l' k \<noteq> None"
        by (simp add: subset_iff dom_def)
      then have "\<forall>k. cache l k \<noteq> None \<longrightarrow> cache l' k \<noteq> None"
        by (metis fun_upd_apply option.distinct(1))
      then show ?thesis by (simp add: subset_iff dom_def)
    qed
  qed
qed

lemma loop_done_cached:
  "get_many_loop h ks todo (res, l, e) = (None, res', l', e') \<Longrightarrow>
   \<forall>i\<in>set todo. ks ! i \<in> dom (cache l')"
proof (induction todo arbitrary: res l e)
  case Nil
  then show ?case by simp
next
  case (Cons i todo)
  show ?case
  proof (cases "fetch h (pathobj l) (ks ! i) (log_debug (get_msg (ks ! i) (path l)) e)")
    case (Pair a e1)
    show ?thesis
    proof (cases a)
      case (Inl x)
      with Pair Cons.prems show ?thesis by (simp add: Let_def)
    next
      case (Inr v)
      with Pair Cons.prems
      have *: "get_many_loop h ks todo (res[i := v], l\<lparr>cache := (cache l)(ks ! i \<mapsto> v)\<rparr>, e1) = (None, res', l', e')"
        by (simp add: Let_def)
      from loop_dom_mono[OF *] have "ks ! i \<in> dom (cache l')" by auto
      with Cons.IH[OF *] show ?thesis by simp
    qed
  qed
qed

lemma loop_failed_split:
  "get_many_loop h ks todo (res, l, e) = (Some (x, key), res', l', e') \<Longrightarrow>
   \<exists>pre i post e1. todo = pre @ i # post \<and> key = ks ! i
      \<and> get_many_loop h ks pre (res, l, e) = (None, res', l', e1)
      \<and> fetch h (pathobj l') key (log_debug (get_msg key (path l')) e1) = (Inl x, e')"
proof (induction todo arbitrary: res l e)
  case Nil
  then show ?case by simp
next
  case (Cons i todo)
  show ?case
  proof (cases "fetch h (pathobj l) (ks ! i) (log_debug (get_msg (ks ! i) (path l)) e)")
    case (Pair a e1)
    show ?thesis
    proof (cases a)
      case (Inl y)
      with Pair Cons.prems have "y = x" "key = ks ! i" "res' = res" "l' = l" "e' = e1"
        by (simp_all add: Let_def)
      with Pair Inl have "i # todo = [] @ i # todo \<and> key = ks ! i
          \<and> get_many_loop h ks [] (res, l, e) = (None, res', l', e)
          \<and> fetch h (pathobj l') key (log_debug (get_msg key (path l')) e) = (Inl x, e')"
        by simp
      then show ?thesis by blast
    next
      case (Inr v)
      with Pair Cons.prems
      have "get_many_loop h ks todo (res[i := v], l\<lparr>cache := (cache l)(ks ! i \<mapsto> v)\<rparr>, e1) = (Some (x, key), res', l', e')"
        by (simp add: Let_def)
      from Cons.IH[OF this] obtain pre j post e2 where
        p: "todo = pre @ j # post" "key = ks ! j"
           "get_many_loop h ks pre (res[i := v], l\<lparr>cache := (cache l)(ks ! i \<mapsto> v)\<rparr>, e1) = (None, res', l', e2)"
           "fetch h (pathobj l') key (log_debug (get_msg key (path l')) e2) = (Inl x, e')"
        by blast
      from p(3) Pair Inr have "get_many_loop h ks (i # pre) (res, l, e) = (None, res', l', e2)"
        by (simp add: Let_def)
      with p have "i # todo = (i # pre) @ j # post \<and> key = ks ! j
          \<and> get_many_loop h ks (i # pre) (res, l, e) = (None, res', l', e2)
          \<and> fetch h (pathobj l') key (log_debug (get_msg key (path l')) e2) = (Inl x, e')"
        by simp
      then show ?thesis by blast
    qed
  qed
qed

text \<open>
  Claim C10. When \<open>get_many\<close> raises, the indices to fetch split into those before the
  failing one, the failing one and the rest; the loader it leaves is the loader after the
  loop has completed on the indices before: each of their keys is in the cache, nothing that
  was cached before the call has gone, and the call returns the exception, not a value.
\<close>

theorem get_many_keeps_fetched_on_error:
  assumes "get_many h ks (l, e) = (Inl x, (l', e'))"
  shows "\<exists>pre i post res1 e1.
           idxtodo (cached_or_none (cache l) ks) = pre @ i # post
         \<and> get_many_loop h ks pre (cached_or_none (cache l) ks, l, e) = (None, res1, l', e1)
         \<and> fst (fetch h (pathobj l') (ks ! i) (log_debug (get_msg (ks ! i) (path l')) e1)) = Inl x
         \<and> (\<forall>j\<in>set pre. ks ! j \<in> dom (cache l'))
         \<and> dom (cache l) \<subseteq> dom (cache l')"
proof -
  let ?res = "cached_or_none (cache l) ks"
  from assms obtain key res1 e2 where
    lp: "get_many_loop h ks (idxtodo ?res) (?res, l, e) = (Some (x, key), res1, l', e2)"
    by (auto simp: get_many_def Let_def split: if_splits prod.splits option.splits)
  from loop_failed_split[OF lp] obtain pre i post e1 where
    p: "idxtodo ?res = pre @ i # post" "key = ks ! i"
       "get_many_loop h ks pre (?res, l, e) = (None, res1, l', e1)"
       "fetch h (pathobj l') key (log_debug (get_msg key (path l')) e1) = (Inl x, e2)"
    by blast
  from loop_done_cached[OF p(3)] have c: "\<forall>j\<in>set pre. ks ! j \<in> dom (cache l')" .
  from loop_dom_mono[OF p(3)] have d: "dom (cache l) \<subseteq> dom (cache l')" .
  from p(4) have f: "fst (fetch h (pathobj l') (ks ! i) (log_debug (get_msg (ks ! i) (path l')) e1)) = Inl x"
    using p(2) by simp
  show ?thesis
    apply (rule exI[of _ pre], rule exI[of _ i], rule exI[of _ post], rule exI[of _ res1], rule exI[of _ e1])
    using p(1) p(3) f c d by simp
qed


theorem get_many_keeps_fetched_on_error_witness:
  "fst (get_many (mem_hooks test_store) [''g/c'', ''his/n''] test_loader) = Inl IOError
   \<and> cache (fst test_loader) ''g/c'' = None
   \<and> cache (fst (snd (get_many (mem_hooks test_store) [''g/c'', ''his/n''] test_loader))) ''g/c''
       = Some (PyVal 7)
   \<and> (\<exists>pre i post. idxtodo (cached_or_none (cache (fst test_loader)) [''g/c'', ''his/n'']) = pre @ i # post
        \<and> (\<forall>j\<in>set pre. [''g/c'', ''his/n''] ! j
              \<in> dom (cache (fst (snd (get_many (mem_hooks test_store) [''g/c'', ''his/n''] test_loader))))))"
proof -
  let ?r = "get_many (mem_hooks test_store) [''g/c'', ''his/n''] test_loader"
  have a: "fst ?r = Inl IOError" by (simp add: test_loader_eq pck_eval)
  then have eq: "get_many (mem_hooks test_store) [''g/c'', ''his/n''] (fst test_loader, snd test_loader)
      = (Inl IOError, (fst (snd ?r), snd (snd ?r)))"
    by (metis prod.collapse)
  have b: "cache (fst test_loader) ''g/c'' = None" by (simp add: test_loader_eq)
  have c: "cache (fst (snd ?r)) ''g/c'' = Some (PyVal 7)" by (simp add: test_loader_eq pck_eval)
  from get_many_keeps_fetched_on_error[OF eq] a b c show ?thesis by blast
qed

text \<open>
  Claim C5. \<open>get\<close> refuses a key that is not among the loader's keys; \<open>get_many\<close> has no
  such test. The test loader excludes the group \<open>snap\<close>, so \<open>snap/x\<close> is not one of its
  keys: \<open>get\<close> raises \<open>KeyError\<close> for it, \<open>get_many\<close> fetches it from the backing store and
  returns its value.
\<close>

theorem get_many_no_membership_check:
  "fst (get (mem_hooks test_store) ''snap/x'' test_loader)
     = Inl (KeyError (notin_msg ''snap/x'' ''test.npz''))
   \<and> keys test_loader = Some [''g/c'', ''his/n'']
   \<and> fst (get_many (mem_hooks test_store) [''snap/x''] test_loader) = Inr [PyVal 3]"
  by (simp add: test_loader_eq pck_eval keys_def)

subsection \<open>The cache between resets\<close>

lemma get_keeps_entry:
  "cache l k = Some v \<Longrightarrow> cache (fst (snd (get h key (l, e)))) k = Some v"
  by (auto simp: get_def Let_def split: option.splits prod.splits sum.splits)

lemma idxtodo_not_cached:
  assumes "cache l k = Some v" "v \<noteq> PyNone"
  shows "\<forall>i\<in>set (idxtodo (cached_or_none (cache l) ks)). ks ! i \<noteq> k"
  using assms by (auto simp: idxtodo_def cached_or_none_def)

lemma get_many_keeps_entry:
  assumes "cache l k = Some v" "v \<noteq> PyNone"
  shows "cache (fst (snd (get_many h ks (l, e)))) k = Some v"
proof -
  let ?res = "cached_or_none (cache l) ks"
  obtain r res' l' e' where lp: "get_many_loop h ks (idxtodo ?res) (?res, l, e) = (r, res', l', e')"
    by (metis prod_cases4)
  from loop_cache_other[OF lp idxtodo_not_cached[OF assms]] have "cache l' k = cache l k" .
  with assms(1) lp show ?thesis
    by (auto simp: get_many_def Let_def split: option.splits)
qed

lemma get_by_group_keeps_entry:
  assumes "cache l k = Some v" "v \<noteq> PyNone"
  shows "cache (fst (snd (get_by_group h g (l, e)))) k = Some v"
  using assms get_many_keeps_entry[OF assms, of h _ e]
  by (auto simp: get_by_group_def split: sum.splits prod.splits) (metis fst_conv snd_conv)+

lemma close_keeps_cache: "cache (fst (snd (close h (l, e)))) = cache l"
  by (auto simp: close_def Let_def split: option.splits prod.splits sum.splits)

lemma run_op_keeps_entry:
  assumes "cache (fst s) k = Some v" "v \<noteq> PyNone"
  shows "cache (fst (run_op h op s)) k = Some v"
proof (cases s)
  case (Pair l e)
  with assms show ?thesis
    by (cases op) (simp_all add: get_keeps_entry get_many_keeps_entry get_by_group_keeps_entry close_keeps_cache)
qed

lemma update_try_keeps_cache: "cache (fst (snd (update_try h (l, e)))) = cache l"
  by (auto simp: update_try_def Let_def split: option.splits prod.splits sum.splits)

lemma update_cache:
  "(fst (update h s) = Inr () \<longrightarrow> cache (fst (snd (update h s))) = Map.empty)
   \<and> (fst (update h s) = Inl x \<longrightarrow> cache (fst (snd (update h s))) = cache (fst s))"
proof (cases s)
  case (Pair l e)
  obtain r1 l1 e1 where c: "close h (l, e) = (r1, l1, e1)" by (metis prod_cases3)
  from close_keeps_cache[of h l e] c have c1: "cache l1 = cache l" by simp
  let ?l = "l1\<lparr>datakeys := None, datagroups := None, desc := None, description := None\<rparr>"
  obtain r2 l2 e2 where u: "update_try h (?l, e1) = (r2, l2, e2)" by (metis prod_cases3)
  from update_try_keeps_cache[of h ?l e1] u have c2: "cache l2 = cache l1" by simp
  from Pair c u c1 c2 show ?thesis
    by (auto simp: update_def split: sum.splits)
qed

text \<open>
  \<open>update\<close> ends with \<open>self.cache = {}\<close>: on the test loader with \<open>g/c\<close> cached, a second
  \<open>update\<close> succeeds and the entry is gone.
\<close>

theorem update_empties_cache:
  "cache (fst (snd (get (mem_hooks test_store) ''g/c'' test_loader))) ''g/c'' = Some (PyVal 7)
   \<and> fst (update (mem_hooks test_store) (snd (get (mem_hooks test_store) ''g/c'' test_loader))) = Inr ()
   \<and> cache (fst (snd (update (mem_hooks test_store)
                 (snd (get (mem_hooks test_store) ''g/c'' test_loader))))) ''g/c'' = None"
  by (simp add: test_loader_eq get_def fetch_def test_store_def update_eval)

text \<open>
  Claim C6, as the code has it. An entry whose cached value is not \<open>None\<close> keeps its value
  through every sequence of \<open>get\<close>, \<open>get_many\<close>, \<open>get_by_group\<close>, \<open>close\<close>, \<open>keys\<close>, \<open>groups\<close>
  and \<open>refind\<close>. \<open>clear_cache\<close> empties the cache, and so does an \<open>update\<close> that completes;
  an \<open>update\<close> that raises leaves the cache as it was.
\<close>

theorem cache_entry_kept_until_reset:
  "(cache (fst s) k = Some v \<and> v \<noteq> PyNone \<longrightarrow> cache (fst (fold (run_op h) ops s)) k = Some v)
   \<and> cache (fst (clear_cache s)) = Map.empty
   \<and> (fst (update h s) = Inr () \<longrightarrow> cache (fst (snd (update h s))) = Map.empty)
   \<and> (fst (update h s) = Inl x \<longrightarrow> cache (fst (snd (update h s))) = cache (fst s))"
proof -
  have "cache (fst s) k = Some v \<Longrightarrow> v \<noteq> PyNone \<Longrightarrow> cache (fst (fold (run_op h) ops s)) k = Some v"
    by (induction ops arbitrary: s) (simp_all add: run_op_keeps_entry)
  moreover have "cache (fst (clear_cache s)) = Map.empty"
    by (cases s) (simp add: clear_cache_def)
  ultimately show ?thesis using update_cache[of h s x] by blast
qed

theorem cache_entry_kept_until_reset_witness:
  "cache (fst (snd (get (mem_hooks test_store) ''g/c'' test_loader))) ''g/c'' = Some (PyVal 7)
   \<and> cache (fst (fold (run_op (mem_hooks test_store))
                  [Get ''his/n'', GetMany [''g/c'', ''snap/x''], Close, GetByGroup ''g'', Keys]
                  (snd (get (mem_hooks test_store) ''g/c'' test_loader)))) ''g/c'' = Some (PyVal 7)
   \<and> fst (update (mem_hooks test_store) test_loader) = Inr ()
   \<and> cache (fst (snd (update (mem_hooks test_store) test_loader))) = Map.empty
   \<and> fst (update ((mem_hooks test_store)\<lparr>special_open := \<lambda>p w. (Inl IOError, w)\<rparr>)
             (snd (get (mem_hooks test_store) ''g/c'' test_loader))) = Inl IOError
   \<and> cache (fst (snd (update ((mem_hooks test_store)\<lparr>special_open := \<lambda>p w. (Inl IOError, w)\<rparr>)
             (snd (get (mem_hooks test_store) ''g/c'' test_loader))))) ''g/c'' = Some (PyVal 7)"
proof -
  let ?s1 = "snd (get (mem_hooks test_store) ''g/c'' test_loader)"
  let ?bad = "(mem_hooks test_store)\<lparr>special_open := \<lambda>p w. (Inl IOError, w)\<rparr>"
  have a: "cache (fst ?s1) ''g/c'' = Some (PyVal 7)"
    by (simp add: test_loader_eq get_def fetch_def test_store_def mem_hooks_get log_debug_def)
  have b: "fst (update (mem_hooks test_store) test_loader) = Inr ()"
    by (simp add: test_loader_eq test_store_def update_eval)
  have c: "fst (update ?bad ?s1) = Inl IOError"
    by (simp add: test_loader_eq get_def fetch_def test_store_def update_eval)
  from cache_entry_kept_until_reset
         [where s = ?s1 and k = "''g/c''" and v = "PyVal 7" and h = "mem_hooks test_store"
            and ops = "[Get ''his/n'', GetMany [''g/c'', ''snap/x''], Close, GetByGroup ''g'', Keys]"]
       cache_entry_kept_until_reset [where s = test_loader and h = "mem_hooks test_store"]
       cache_entry_kept_until_reset [where s = ?s1 and h = ?bad and x = IOError]
       a b c
  show ?thesis by simp
qed

subsection \<open>groups and keys after update\<close>

lemma exclude_matching_filter:
  "exclude_matching pats ks = filter (\<lambda>k. \<forall>pat\<in>set pats. \<not> matches pat k) ks"
  unfolding exclude_matching_def
  by (induction pats arbitrary: ks) (auto intro: filter_cong)

lemma drop_groups_filter:
  "drop_groups exc dk = filter (\<lambda>k. \<forall>g\<in>set exc. \<not> prefix g k) dk"
  unfolding drop_groups_def
  by (induction exc arbitrary: dk) (auto intro: filter_cong)

lemma close_more: "BaseLoader.more (fst (snd (close h (l, e)))) = BaseLoader.more l"
  by (auto simp: close_def Let_def split: option.splits prod.splits sum.splits)

lemma update_try_ok:
  assumes "update_try h (l, e) = (Inr (), s2)"
  shows "\<exists>p w w' fns.
           special_getkeys h p w = (Inr fns, w')
         \<and> datagroups (fst s2) =
             Some (sort (exclude_matching (datagroups_exclude l) (removeAll [] (special_getgroups fns))))
         \<and> datakeys (fst s2) =
             Some (drop_groups
                     (filter (\<lambda>g. g \<notin> set (exclude_matching (datagroups_exclude l)
                                                (removeAll [] (special_getgroups fns))))
                             (removeAll [] (special_getgroups fns))) fns)"
proof -
  let ?e0 = "log_debug (''Open path '' @ path l @ ''.'') e"
  obtain r1 w1 where o: "special_open h (path l) (world ?e0) = (r1, w1)" by force
  show ?thesis
  proof (cases r1)
    case (Inl x)
    with o assms show ?thesis by (simp add: update_try_def Let_def)
  next
    case (Inr p)
    let ?e1 = "log_debug (''Getting datakeys from '' @ path l @ '' ...'') (?e0\<lparr>world := w1\<rparr>)"
    obtain r2 w2 where g: "special_getkeys h p (world ?e1) = (r2, w2)" by force
    show ?thesis
    proof (cases r2)
      case (Inl x)
      with o Inr g assms show ?thesis by (simp add: update_try_def Let_def)
    next
      case fns: (Inr fns)
      with o Inr g assms
      have "datagroups (fst s2) =
             Some (sort (exclude_matching (datagroups_exclude l) (removeAll [] (special_getgroups fns))))
         \<and> datakeys (fst s2) =
             Some (drop_groups
                     (filter (\<lambda>g. g \<notin> set (exclude_matching (datagroups_exclude l)
                                                (removeAll [] (special_getgroups fns))))
                             (removeAll [] (special_getgroups fns))) fns)"
        by (auto simp: update_try_def Let_def split: if_splits prod.splits sum.splits)
      with g fns show ?thesis by blast
    qed
  qed
qed

lemma update_ok:
  assumes "update h s = (Inr (), s')"
  shows "\<exists>p w w' fns.
           special_getkeys h p w = (Inr fns, w')
         \<and> groups s' =
             Some (sort (exclude_matching (datagroups_exclude (fst s)) (removeAll [] (special_getgroups fns))))
         \<and> keys s' =
             Some (drop_groups
                     (filter (\<lambda>g. g \<notin> set (exclude_matching (datagroups_exclude (fst s))
                                                (removeAll [] (special_getgroups fns))))
                             (removeAll [] (special_getgroups fns))) fns)"
proof (cases s)
  case (Pair l e)
  obtain r1 l1 e1 where c: "close h (l, e) = (r1, l1, e1)" by (metis prod_cases3)
  from close_more[of h l e] c have m: "datagroups_exclude l1 = datagroups_exclude l"
    by (cases l, cases l1) (simp add: BasePckLoader.defs)
  let ?l = "l1\<lparr>datakeys := None, datagroups := None, desc := None, description := None\<rparr>"
  from assms Pair c obtain l2 e2 where
    t: "update_try h (?l, e1) = (Inr (), (l2, e2))" and s': "s' = (l2\<lparr>cache := Map.empty\<rparr>, e2)"
    by (auto simp: update_def split: sum.splits prod.splits)
  from update_try_ok[OF t] m Pair s' show ?thesis by (simp add: keys_def groups_def)
qed

text \<open>
  What holds of \<open>groups()\<close> after every \<open>update\<close> that completes: it is sorted, without
  repetition and without the empty group, and the group of every enumerated key is empty or
  reported. Without exclusions it is exactly the set of the non-empty groups of the keys.
\<close>

lemma prefix_rev_dropWhile: "prefix (rev (dropWhile P (rev xs))) xs"
proof -
  have "rev xs = takeWhile P (rev xs) @ dropWhile P (rev xs)" by simp
  then have "xs = rev (dropWhile P (rev xs)) @ rev (takeWhile P (rev xs))"
    by (metis rev_append rev_rev_ident)
  then show ?thesis by (metis prefixI)
qed

lemma prefix_dirname: "prefix (dirname k) k"
proof -
  have h: "prefix (path_head k) k" unfolding path_head_def by (rule prefix_rev_dropWhile)
  have "prefix (rev (dropWhile (\<lambda>c. c = CHR ''/'') (rev (path_head k)))) (path_head k)"
    by (rule prefix_rev_dropWhile)
  with h have "prefix (rev (dropWhile (\<lambda>c. c = CHR ''/'') (rev (path_head k)))) k"
    by (rule prefix_order.order_trans[rotated])
  with h show ?thesis by (simp add: dirname_def Let_def)
qed

lemma groups_cover_keys:
  assumes "update h s = (Inr (), s')"
  shows "\<exists>gs dk. groups s' = Some gs \<and> keys s' = Some dk \<and> sorted gs \<and> distinct gs \<and> [] \<notin> set gs
           \<and> (\<forall>k\<in>set dk. dirname k = [] \<or> dirname k \<in> set gs)"
proof -
  from update_ok[OF assms] obtain p w w' fns where
    g: "groups s' = Some (sort (exclude_matching (datagroups_exclude (fst s)) (removeAll [] (special_getgroups fns))))"
    and k: "keys s' = Some (drop_groups
                     (filter (\<lambda>g. g \<notin> set (exclude_matching (datagroups_exclude (fst s))
                                                (removeAll [] (special_getgroups fns))))
                             (removeAll [] (special_getgroups fns))) fns)"
    by blast
  let ?all = "removeAll [] (special_getgroups fns)"
  let ?dg = "exclude_matching (datagroups_exclude (fst s)) ?all"
  let ?exc = "filter (\<lambda>g. g \<notin> set ?dg) ?all"
  let ?dk = "drop_groups ?exc fns"
  have d: "distinct ?dg" by (simp add: exclude_matching_filter special_getgroups_def distinct_removeAll)
  have n: "[] \<notin> set ?dg" by (simp add: exclude_matching_filter)
  have c: "\<forall>k\<in>set ?dk. dirname k = [] \<or> dirname k \<in> set ?dg"
  proof
    fix k assume kk: "k \<in> set ?dk"
    then have kf: "k \<in> set fns" and np: "\<forall>g\<in>set ?exc. \<not> prefix g k"
      by (simp_all add: drop_groups_filter)
    show "dirname k = [] \<or> dirname k \<in> set ?dg"
    proof (cases "dirname k = []")
      case True
      then show ?thesis by simp
    next
      case False
      with kf have "dirname k \<in> set ?all" by (simp add: special_getgroups_def)
      moreover from np prefix_dirname[of k] have "dirname k \<notin> set ?exc" by blast
      ultimately show ?thesis by simp
    qed
  qed
  from g k d n c show ?thesis by simp
qed

lemma groups_exact_without_exclusion:
  assumes "update h s = (Inr (), s')" "datagroups_exclude (fst s) = []"
  shows "\<exists>gs dk. groups s' = Some gs \<and> keys s' = Some dk \<and> set gs = dirname ` set dk - {[]}"
proof -
  from update_ok[OF assms(1)] assms(2) show ?thesis
    by (auto simp: exclude_matching_def drop_groups_def special_getgroups_def)
qed

lemma his_loader_eq:
  "his_loader =
     (\<lparr>path = ''his.npz'', pathobj = Some (), datakeys = Some [],
       datagroups = Some [''history''], datagroups_exclude = [Cat (Lit ''his'') Eos],
       desc = None, description = None, cache = Map.empty\<rparr>,
      \<lparr>world = [],
       glog = [Debug ''Open path his.npz.'', Debug ''Getting datakeys from his.npz ...'',
               Debug ''Getting datagroups from his.npz ...'',
               Debug ''Getting description of his.npz ...'']\<rparr>)"
  unfolding his_loader_def pck_init_def his_store_def env0_def
  by (simp add: update_eval)

text \<open>
  Claim C7. The backing store enumerates \<open>his/n\<close> and \<open>history/x\<close> and the loader excludes
  \<open>'his$'\<close>, which matches the group \<open>his\<close> and not the group \<open>history\<close>. \<open>update\<close> drops
  the keys of an excluded group with \<open>k.startswith(grp)\<close>, without the separator, so
  \<open>history/x\<close> goes with \<open>his/n\<close>: \<open>groups()\<close> reports \<open>history\<close> while \<open>keys()\<close> is empty.
\<close>

theorem groups_keeps_group_whose_keys_were_dropped:
  "fst (special_getkeys (mem_hooks his_store) () []) = Inr [''his/n'', ''history/x'']
   \<and> \<not> matches (Cat (Lit ''his'') Eos) ''history''
   \<and> groups his_loader = Some [''history'']
   \<and> keys his_loader = Some []"
  by (simp add: his_loader_eq groups_def keys_def mem_hooks_def his_store_def matches_def re_match_def)

section \<open>Properties of BaseRawLoader\<close>

lemma raw_update_try_ok:
  assumes "raw_update_try h (l, e) = (Inr (), s2)"
  shows "\<exists>p w w' fns. special_getkeys h p w = (Inr fns, w')
           \<and> filenames (fst s2) = Some (sort (exclude_matching (filenames_exclude l) fns))"
proof -
  let ?e0 = "log_debug (''Open path '' @ path l @ ''.'') e"
  obtain r1 w1 where o: "special_open h (path l) (world ?e0) = (r1, w1)" by force
  show ?thesis
  proof (cases r1)
    case (Inl x)
    with o assms show ?thesis by (simp add: raw_update_try_def Let_def)
  next
    case (Inr p)
    let ?e1 = "log_debug (''Getting filenames from '' @ path l @ '' ...'') (?e0\<lparr>world := w1\<rparr>)"
    obtain r2 w2 where g: "special_getkeys h p (world ?e1) = (r2, w2)" by force
    show ?thesis
    proof (cases r2)
      case (Inl x)
      with o Inr g assms show ?thesis by (simp add: raw_update_try_def Let_def)
    next
      case fns: (Inr fns)
      with o Inr g assms
      have "filenames (fst s2) = Some (sort (exclude_matching (filenames_exclude l) fns))"
        by (auto simp: raw_update_try_def Let_def)
      with g fns show ?thesis by blast
    qed
  qed
qed

lemma raw_update_ok:
  assumes "raw_update h s = (Inr (), s')"
  shows "\<exists>p w w' fns. special_getkeys h p w = (Inr fns, w')
           \<and> raw_keys s' = Some (sort (exclude_matching (filenames_exclude (fst s)) fns))"
proof (cases s)
  case (Pair l e)
  obtain r1 l1 e1 where c: "close h (l, e) = (r1, l1, e1)" by (metis prod_cases3)
  from close_more[of h l e] c have m: "filenames_exclude l1 = filenames_exclude l"
    by (cases l, cases l1) (simp add: BaseRawLoader.defs)
  from assms Pair c have t: "raw_update_try h (l1\<lparr>filenames := None\<rparr>, e1) = (Inr (), s')"
    by (auto simp: raw_update_def split: sum.splits prod.splits)
  from raw_update_try_ok[OF t] m Pair show ?thesis by (simp add: raw_keys_def)
qed

lemma raw_loader_eq:
  "raw_loader =
     (\<lparr>path = ''run1'', pathobj = Some (), filenames = Some [''data1d.out'', ''gtc.out''],
       filenames_exclude = [Lit ''big'']\<rparr>,
      \<lparr>world = [], glog = [Debug ''Open path run1.'', Debug ''Getting filenames from run1 ...'']\<rparr>)"
  unfolding raw_loader_def raw_init_def raw_store_def env0_def
  by (simp add: raw_update_def raw_update_try_def update_eval)

subsection \<open>keys\<close>

text \<open>
  \<open>BasePckLoader.update\<close> stores the keys in the order \<open>_special_getkeys\<close> returns them: two
  backing stores that enumerate the same two keys in different orders give different
  \<open>keys()\<close>. Its exclusion list is matched against group names, not keys: the bare key
  \<open>bigdata\<close> stays although the exclusion entry \<open>bigdata\<close> matches it.
\<close>

theorem pck_keys_unsorted_filter_on_groups:
  "keys (snd (pck_init (mem_hooks [(''b/y'', Inr (PyVal (1::nat))), (''a/x'', Inr (PyVal 2))]) ''t.npz'' [] env0))
     = Some [''b/y'', ''a/x'']
   \<and> keys (snd (pck_init (mem_hooks [(''a/x'', Inr (PyVal (2::nat))), (''b/y'', Inr (PyVal 1))]) ''t.npz'' [] env0))
     = Some [''a/x'', ''b/y'']
   \<and> matches (Lit ''bigdata'') ''bigdata''
   \<and> keys (snd (pck_init (mem_hooks [(''bigdata'', Inr (PyVal (1::nat)))]) ''t.npz'' [Lit ''bigdata''] env0))
     = Some [''bigdata'']"
  by (simp add: pck_init_def env0_def keys_def update_eval)

text \<open>
  Claim C8, as the code has it. \<open>BaseRawLoader.keys()\<close> after an \<open>update\<close> that completes is
  the sorted list of the enumerated file names that no exclusion pattern matches, and it is
  the same list for every enumeration order of the same file names. \<open>BasePckLoader.keys()\<close>
  after an \<open>update\<close> that completes is a selection of the enumerated keys in enumeration
  order: a key whose group is excluded (a group name, not empty, that an exclusion pattern
  matches) is left out, and a key that begins with the name of no excluded group is kept.
\<close>

theorem keys_order_and_exclusion:
  "(raw_update h s = (Inr (), s') \<longrightarrow>
      (\<exists>p w w' fns. special_getkeys h p w = (Inr fns, w')
         \<and> raw_keys s' = Some (sort (filter (\<lambda>k. \<forall>pat\<in>set (filenames_exclude (fst s)). \<not> matches pat k) fns))))
   \<and> (mset fa = mset fb \<longrightarrow> sort (exclude_matching pats fa) = sort (exclude_matching pats fb))
   \<and> (update h' t = (Inr (), t') \<longrightarrow>
      (\<exists>p w w' fns keep. special_getkeys h' p w = (Inr fns, w')
         \<and> keys t' = Some (filter keep fns)
         \<and> (\<forall>k\<in>set fns. dirname k \<noteq> [] \<and> (\<exists>pat\<in>set (datagroups_exclude (fst t)). matches pat (dirname k))
                \<longrightarrow> \<not> keep k)
         \<and> (\<forall>k\<in>set fns.
               (\<forall>k'\<in>set fns. dirname k' \<noteq> []
                    \<and> (\<exists>pat\<in>set (datagroups_exclude (fst t)). matches pat (dirname k'))
                    \<longrightarrow> \<not> prefix (dirname k') k)
                \<longrightarrow> keep k)))"
proof (intro conjI impI)
  assume "raw_update h s = (Inr (), s')"
  from raw_update_ok[OF this]
  show "\<exists>p w w' fns. special_getkeys h p w = (Inr fns, w')
         \<and> raw_keys s' = Some (sort (filter (\<lambda>k. \<forall>pat\<in>set (filenames_exclude (fst s)). \<not> matches pat k) fns))"
    by (simp add: exclude_matching_filter)
next
  assume "mset fa = mset fb"
  then have "mset (exclude_matching pats fa) = mset (exclude_matching pats fb)"
    by (simp add: exclude_matching_filter)
  then show "sort (exclude_matching pats fa) = sort (exclude_matching pats fb)"
    by (simp add: properties_for_sort)
next
  assume "update h' t = (Inr (), t')"
  from update_ok[OF this] obtain p w w' fns where
    g: "special_getkeys h' p w = (Inr fns, w')" and
    k: "keys t' = Some (drop_groups
                     (filter (\<lambda>g. g \<notin> set (exclude_matching (datagroups_exclude (fst t))
                                                (removeAll [] (special_getgroups fns))))
                             (removeAll [] (special_getgroups fns))) fns)"
    by blast
  let ?exc = "filter (\<lambda>g. g \<notin> set (exclude_matching (datagroups_exclude (fst t))
                                                (removeAll [] (special_getgroups fns))))
                             (removeAll [] (special_getgroups fns))"
  let ?keep = "\<lambda>k. \<forall>g\<in>set ?exc. \<not> prefix g k"
  have e: "set ?exc = {g \<in> dirname ` set fns. g \<noteq> [] \<and> (\<exists>pat\<in>set (datagroups_exclude (fst t)). matches pat g)}"
    by (auto simp: exclude_matching_filter special_getgroups_def)
  from k have k': "keys t' = Some (filter ?keep fns)"
    by (simp only: drop_groups_filter)
  have a: "\<forall>k\<in>set fns. dirname k \<noteq> [] \<and> (\<exists>pat\<in>set (datagroups_exclude (fst t)). matches pat (dirname k))
                \<longrightarrow> \<not> ?keep k"
  proof (intro ballI impI)
    fix k assume "k \<in> set fns"
      and "dirname k \<noteq> [] \<and> (\<exists>pat\<in>set (datagroups_exclude (fst t)). matches pat (dirname k))"
    then have "dirname k \<in> set ?exc" unfolding e by blast
    with prefix_dirname[of k] show "\<not> ?keep k" by blast
  qed
  have b: "\<forall>k\<in>set fns.
               (\<forall>k'\<in>set fns. dirname k' \<noteq> []
                    \<and> (\<exists>pat\<in>set (datagroups_exclude (fst t)). matches pat (dirname k'))
                    \<longrightarrow> \<not> prefix (dirname k') k)
                \<longrightarrow> ?keep k"
  proof (intro ballI impI)
    fix k g assume "k \<in> set fns"
      and n: "\<forall>k'\<in>set fns. dirname k' \<noteq> []
                    \<and> (\<exists>pat\<in>set (datagroups_exclude (fst t)). matches pat (dirname k'))
                    \<longrightarrow> \<not> prefix (dirname k') k"
      and "g \<in> set ?exc"
    then obtain k' where "k' \<in> set fns" "g = dirname k'" "g \<noteq> []"
        "\<exists>pat\<in>set (datagroups_exclude (fst t)). matches pat g"
      unfolding e by blast
    with n show "\<not> prefix g k" by blast
  qed
  from g k' a b show "\<exists>p w w' fns keep. special_getkeys h' p w = (Inr fns, w')
         \<and> keys t' = Some (filter keep fns)
         \<and> (\<forall>k\<in>set fns. dirname k \<noteq> [] \<and> (\<exists>pat\<in>set (datagroups_exclude (fst t)). matches pat (dirname k))
                \<longrightarrow> \<not> keep k)
         \<and> (\<forall>k\<in>set fns.
               (\<forall>k'\<in>set fns. dirname k' \<noteq> []
                    \<and> (\<exists>pat\<in>set (datagroups_exclude (fst t)). matches pat (dirname k'))
                    \<longrightarrow> \<not> prefix (dirname k') k)
                \<longrightarrow> keep k)"
    by blast
qed

theorem keys_order_and_exclusion_witness:
  "raw_update (mem_hooks raw_store)
      (\<lparr>path = ''run1'', pathobj = None, filenames = None, filenames_exclude = [Lit ''big'']\<rparr>, env0)
     = (Inr (), raw_loader)
   \<and> raw_keys raw_loader = Some [''data1d.out'', ''gtc.out'']
   \<and> mset [''gtc.out'', ''data1d.out''] = mset [''data1d.out'', ''gtc.out'']
   \<and> sort (exclude_matching [Lit ''big''] [''gtc.out'', ''data1d.out''])
       = sort (exclude_matching [Lit ''big''] [''data1d.out'', ''gtc.out''])
   \<and> update (mem_hooks test_store)
        (\<lparr>path = ''test.npz'', pathobj = None, datakeys = None, datagroups = None,
         datagroups_exclude = [Lit ''snap''], desc = None, description = None, cache = Map.empty\<rparr>, env0)
       = (Inr (), test_loader)
   \<and> keys test_loader = Some [''g/c'', ''his/n'']
   \<and> (\<exists>p w w' fns keep. special_getkeys (mem_hooks test_store) p w = (Inr fns, w')
         \<and> keys test_loader = Some (filter keep fns)
         \<and> (\<forall>k\<in>set fns. dirname k \<noteq> [] \<and> (\<exists>pat\<in>set [Lit ''snap'']. matches pat (dirname k))
                \<longrightarrow> \<not> keep k)
         \<and> (\<forall>k\<in>set fns.
               (\<forall>k'\<in>set fns. dirname k' \<noteq> [] \<and> (\<exists>pat\<in>set [Lit ''snap'']. matches pat (dirname k'))
                    \<longrightarrow> \<not> prefix (dirname k') k)
                \<longrightarrow> keep k))"
proof -
  have r: "raw_update (mem_hooks raw_store)
      (\<lparr>path = ''run1'', pathobj = None, filenames = None, filenames_exclude = [Lit ''big'']\<rparr>, env0)
     = (Inr (), raw_loader)"
    by (simp add: raw_loader_eq raw_store_def env0_def raw_update_def raw_update_try_def update_eval)
  have k: "raw_keys raw_loader = Some [''data1d.out'', ''gtc.out'']"
    by (simp add: raw_loader_eq raw_keys_def)
  have m: "mset [''gtc.out'', ''data1d.out''] = mset [''data1d.out'', ''gtc.out'']"
    by simp
  have u: "update (mem_hooks test_store)
        (\<lparr>path = ''test.npz'', pathobj = None, datakeys = None, datagroups = None,
         datagroups_exclude = [Lit ''snap''], desc = None, description = None, cache = Map.empty\<rparr>, env0)
       = (Inr (), test_loader)"
    by (simp add: test_loader_eq test_store_def env0_def update_eval)
  have d: "keys test_loader = Some [''g/c'', ''his/n'']"
    by (simp add: test_loader_eq keys_def)
  from keys_order_and_exclusion
         [where h = "mem_hooks raw_store" and s' = raw_loader and fa = "[''gtc.out'', ''data1d.out'']"
            and fb = "[''data1d.out'', ''gtc.out'']" and pats = "[Lit ''big'']"
            and h' = "mem_hooks test_store" and t' = test_loader
            and t = "(\<lparr>path = ''test.npz'', pathobj = None, datakeys = None, datagroups = None,
         datagroups_exclude = [Lit ''snap''], desc = None, description = None, cache = Map.empty\<rparr>, env0)"]
       r k m u d
  show ?thesis by simp
qed

subsection \<open>get as a context manager\<close>

text \<open>
  Claim C9. \<open>with_get\<close> raises before anything is fetched when the file names are not set
  (\<open>TypeError\<close>) or the key is not one of them (\<open>KeyError\<close>); nothing has been opened and
  nothing changes. When \<open>_special_get\<close> raises, \<open>with_get\<close> raises the same exception, the
  body does not run, nothing is closed, and for \<open>IOError\<close> and \<open>ValueError\<close> the record
  \<open>Failed to get 'key' from path!\<close> is logged first. When \<open>_special_get\<close> returns a file
  object, the body runs, and whether it returns or raises the file object's \<open>close\<close> is then
  called, once, on the world the body left; the statement raises what the body raised
  (logged first, with the same record, when it is \<open>IOError\<close> or \<open>ValueError\<close>), or what
  \<open>close\<close> raised.
\<close>

theorem with_get_closes_and_reraises:
  "(filenames l = None \<longrightarrow> with_get h fclose key body (l, e) = (Inl TypeError, (l, e)))
   \<and> (filenames l = Some fns \<and> key \<notin> set fns \<longrightarrow>
        with_get h fclose key body (l, e)
          = (Inl (KeyError (key @ '' is not in '' @ [CHR 0x27] @ path l @ [CHR 0x27])), (l, e)))
   \<and> (filenames l = Some fns \<and> key \<in> set fns
        \<and> special_get h (pathobj l) key (world e) = (Inl x, wa) \<longrightarrow>
            with_get h fclose key body (l, e) =
              (Inl x, (l, e\<lparr>glog := glog e @ Debug (getfile_msg key (path l))
                        # (if x = IOError \<or> x = ValueError
                           then [Error (''Failed to get '' @ [CHR 0x27] @ key @ [CHR 0x27]
                                        @ '' from '' @ path l @ ''!'')]
                           else []),
                      world := wa\<rparr>)))
   \<and> (filenames l = Some fns \<and> key \<in> set fns
        \<and> special_get h (pathobj l) key (world e) = (Inr f, wa)
        \<and> body f (e\<lparr>glog := glog e @ [Debug (getfile_msg key (path l))], world := wa\<rparr>) = (r, ea)
        \<and> fclose f (world ea) = (c, wb) \<longrightarrow>
            with_get h fclose key body (l, e) =
              ((case c of Inl y \<Rightarrow> Inl y | Inr u \<Rightarrow> r),
               (l, ea\<lparr>glog := glog ea
                        @ (case r of
                             Inl x \<Rightarrow> if x = IOError \<or> x = ValueError
                                      then [Error (''Failed to get '' @ [CHR 0x27] @ key @ [CHR 0x27]
                                                   @ '' from '' @ path l @ ''!'')]
                                      else []
                           | Inr v \<Rightarrow> [])
                        @ [Debug (closefile_msg key (path l))],
                       world := wb\<rparr>)))"
  by (auto simp: with_get_def fetch_def log_debug_def log_error_def io_or_value_def fail_msg_def
        notin_msg_def quoted_def Let_def split: sum.splits)

theorem with_get_closes_and_reraises_witness:
  "fst (with_get (mem_hooks raw_store) mem_fclose ''data1d.out'' (\<lambda>f e. (Inr f, e)) raw_loader) = Inl IOError
   \<and> world (snd (snd (with_get (mem_hooks raw_store) mem_fclose ''data1d.out'' (\<lambda>f e. (Inr f, e)) raw_loader)))
       = [''data1d.out'']
   \<and> last (glog (snd (snd (with_get (mem_hooks raw_store) mem_fclose ''data1d.out'' (\<lambda>f e. (Inr f, e)) raw_loader))))
       = Error ''Failed to get 'data1d.out' from run1!''
   \<and> fst (with_get (mem_hooks raw_store) mem_fclose ''gtc.out'' (\<lambda>f e. (Inl ValueError :: exn + nat, e)) raw_loader)
       = Inl ValueError
   \<and> world (snd (snd (with_get (mem_hooks raw_store) mem_fclose ''gtc.out''
                          (\<lambda>f e. (Inl ValueError :: exn + nat, e)) raw_loader)))
       = [''gtc.out'', ''close'']
   \<and> fst (with_get (mem_hooks raw_store) mem_fclose ''gtc.out'' (\<lambda>f e. (Inr f, e)) raw_loader) = Inr 1
   \<and> world (snd (snd (with_get (mem_hooks raw_store) mem_fclose ''gtc.out'' (\<lambda>f e. (Inr f, e)) raw_loader)))
       = [''gtc.out'', ''close'']
   \<and> with_get (mem_hooks raw_store) mem_fclose ''bigdata.out'' (\<lambda>f e. (Inr f, e)) raw_loader
       = (Inl (KeyError (''bigdata.out is not in '' @ [CHR 0x27] @ ''run1'' @ [CHR 0x27])), raw_loader)
   \<and> with_get (mem_hooks raw_store) mem_fclose ''gtc.out'' (\<lambda>f e. (Inr f, e))
        (\<lparr>path = ''run1'', pathobj = None, filenames = None, filenames_exclude = []\<rparr>, env0)
       = (Inl TypeError, (\<lparr>path = ''run1'', pathobj = None, filenames = None, filenames_exclude = []\<rparr>, env0))"
  using with_get_closes_and_reraises
          [where l = "fst raw_loader" and fns = "[''data1d.out'', ''gtc.out'']" and key = "''data1d.out''"
             and h = "mem_hooks raw_store" and e = "snd raw_loader" and x = IOError
             and wa = "[''data1d.out'']" and fclose = mem_fclose and body = "\<lambda>f e. (Inr f, e)"]
        with_get_closes_and_reraises
          [where l = "fst raw_loader" and fns = "[''data1d.out'', ''gtc.out'']" and key = "''gtc.out''"
             and h = "mem_hooks raw_store" and e = "snd raw_loader" and f = 1
             and wa = "[''gtc.out'']" and fclose = mem_fclose
             and body = "\<lambda>f e. (Inl ValueError :: exn + nat, e)" and r = "Inl ValueError"
             and ea = "(snd raw_loader)\<lparr>glog := glog (snd raw_loader) @ [Debug (getfile_msg ''gtc.out'' ''run1'')],
                                         world := [''gtc.out'']\<rparr>"
             and c = "Inr ()" and wb = "[''gtc.out'', ''close'']"]
        with_get_closes_and_reraises
          [where l = "fst raw_loader" and fns = "[''data1d.out'', ''gtc.out'']" and key = "''gtc.out''"
             and h = "mem_hooks raw_store" and e = "snd raw_loader" and f = 1
             and wa = "[''gtc.out'']" and fclose = mem_fclose
             and body = "\<lambda>f e. (Inr f, e)" and r = "Inr 1"
             and ea = "(snd raw_loader)\<lparr>glog := glog (snd raw_loader) @ [Debug (getfile_msg ''gtc.out'' ''run1'')],
                                         world := [''gtc.out'']\<rparr>"
             and c = "Inr ()" and wb = "[''gtc.out'', ''close'']"]
        with_get_closes_and_reraises
          [where l = "fst raw_loader" and fns = "[''data1d.out'', ''gtc.out'']" and key = "''bigdata.out''"
             and h = "mem_hooks raw_store" and e = "snd raw_loader"
             and fclose = mem_fclose and body = "\<lambda>f e. (Inr f, e)"]
        with_get_closes_and_reraises
          [where l = "\<lparr>path = ''run1'', pathobj = None, filenames = None, filenames_exclude = []\<rparr>"
             and key = "''gtc.out''" and h = "mem_hooks raw_store" and e = env0
             and fclose = mem_fclose and body = "\<lambda>f e. (Inr f, e)"]
  by (simp add: raw_loader_eq mem_hooks_get raw_store_def mem_fclose_def)

section \<open>Properties of the resolver\<close>

lemmas resolve_eval = resolve_def primary_matches_def order_by_group_def first_occurrences_def
  grouping_names_def group_of_def variant_of_def pm_group_def pm_variant_def mk_unit_def multi_unit_def
  companions_def complete_def matches_def re_match_def rx_seq_def Let_def

lemma first_occurrences_set [simp]: "set (first_occurrences xs) = set xs"
  by (simp add: first_occurrences_def)

lemma first_occurrences_distinct [simp]: "distinct (first_occurrences xs)"
  by (simp add: first_occurrences_def)

lemma mset_concat_filters:
  "distinct gs \<Longrightarrow>
   mset (concat (map (\<lambda>g. filter (\<lambda>m. f m = g) ms) gs)) = filter_mset (\<lambda>m. f m \<in> set gs) (mset ms)"
proof (induction gs)
  case Nil
  then show ?case by simp
next
  case (Cons g gs)
  then have "g \<notin> set gs" and "distinct gs" by simp_all
  with Cons.IH show ?case
    by (auto intro!: multiset_eqI)
qed

lemma mset_order_by_group: "mset (order_by_group ms) = mset ms"
proof -
  have "filter_mset (\<lambda>m. pm_group m \<in> set (map pm_group ms)) (mset ms) = mset ms"
    by (rule multiset_eqI) auto
  then show ?thesis
    by (simp add: order_by_group_def mset_concat_filters)
qed

lemma set_order_by_group: "set (order_by_group ms) = set ms"
  by (metis mset_order_by_group set_mset_mset)

lemma map_fst_primary_matches:
  "map fst (primary_matches gn p0 ks) = filter (matches p0) ks"
  by (induction ks) (auto simp: primary_matches_def matches_def split: option.splits)

lemma primary_matches_Nil: "primary_matches gn p0 [] = []"
  by (simp add: primary_matches_def)

lemma primary_matches_Cons:
  "primary_matches gn p0 (k # ks) =
     (case re_match p0 k of None \<Rightarrow> [] | Some c \<Rightarrow> [(k, group_of gn c, variant_of gn c)])
     @ primary_matches gn p0 ks"
  by (simp add: primary_matches_def)

lemma primary_matches_mem:
  "m \<in> set (primary_matches gn p0 ks) \<longleftrightarrow>
     (\<exists>k c. k \<in> set ks \<and> re_match p0 k = Some c \<and> m = (k, group_of gn c, variant_of gn c))"
proof (induction ks)
  case Nil
  then show ?case by (simp add: primary_matches_Nil)
next
  case (Cons a ks)
  show ?case
  proof (cases "re_match p0 a")
    case None
    with Cons show ?thesis by (auto simp: primary_matches_Cons)
  next
    case (Some c)
    with Cons show ?thesis by (auto simp: primary_matches_Cons)
  qed
qed

lemma primaryKeys_single: "primaryKeys (mk_unit spec m []) = [fst m]"
  by (simp add: mk_unit_def)

lemma resolve_single:
  assumes "patterns spec = [p0]" "cardinality spec = SINGLE"
  shows "resolve ks spec =
     Inr (map (\<lambda>m. mk_unit spec m []) (order_by_group (primary_matches (grouping_names [p0]) p0 ks)))"
  using assms by (simp add: resolve_def)

lemma concat_map_primaryKeys_single:
  "concat (map primaryKeys (map (\<lambda>m. mk_unit spec m []) ms)) = map fst ms"
  by (induction ms) (simp_all add: primaryKeys_single)

lemma single_units:
  assumes "patterns spec = [p0]" "cardinality spec = SINGLE" "distinct ks"
  shows "\<exists>us. resolve ks spec = Inr us \<and> length us = card {k \<in> set ks. matches p0 k}
        \<and> (\<forall>u\<in>set us. \<exists>k\<in>set ks. matches p0 k \<and> primaryKeys u = [k])
        \<and> distinct (concat (map primaryKeys us))"
proof -
  let ?pm = "primary_matches (grouping_names [p0]) p0 ks"
  let ?us = "map (\<lambda>m. mk_unit spec m []) (order_by_group ?pm)"
  have r: "resolve ks spec = Inr ?us" using assms(1,2) by (rule resolve_single)
  have m: "mset (map fst (order_by_group ?pm)) = mset (filter (matches p0) ks)"
    using mset_order_by_group[of ?pm] map_fst_primary_matches[of "grouping_names [p0]" p0 ks]
    by (metis mset_map)
  have d: "distinct (filter (matches p0) ks)" using assms(3) by simp
  have "length ?us = length (map fst (order_by_group ?pm))" by simp
  also have "\<dots> = length (filter (matches p0) ks)" using m by (rule mset_eq_length)
  also have "\<dots> = card (set (filter (matches p0) ks))" using distinct_card[OF d] by simp
  finally have l: "length ?us = card {k \<in> set ks. matches p0 k}" by simp
  have k: "\<forall>u\<in>set ?us. \<exists>k\<in>set ks. matches p0 k \<and> primaryKeys u = [k]"
  proof
    fix u assume "u \<in> set ?us"
    then obtain m where mm: "m \<in> set ?pm" and u: "u = mk_unit spec m []"
      by (auto simp: set_order_by_group)
    from mm have "fst m \<in> set (map fst ?pm)" by simp
    then have "fst m \<in> set ks \<and> matches p0 (fst m)"
      by (simp add: map_fst_primary_matches)
    with u show "\<exists>k\<in>set ks. matches p0 k \<and> primaryKeys u = [k]"
      by (auto simp: primaryKeys_single)
  qed
  have "distinct (map fst (order_by_group ?pm))"
    using m d by (metis mset_eq_imp_distinct_iff)
  then have dd: "distinct (concat (map primaryKeys ?us))"
    by (simp only: concat_map_primaryKeys_single)
  from r l k dd show ?thesis by blast
qed

lemma distinct_pairs_subset: "set (distinct_pairs seen ms) \<subseteq> set ms"
  by (induction seen ms rule: distinct_pairs.induct) auto

lemma distinct_pairs_snd:
  "distinct (map snd (distinct_pairs seen ms))
   \<and> set (map snd (distinct_pairs seen ms)) = snd ` set ms - set seen"
  by (induction seen ms rule: distinct_pairs.induct) auto

lemma set_companions:
  "set (companions gn g ks p) = {k \<in> set ks. \<exists>c. re_match p k = Some c \<and> group_of gn c = g}"
  by (auto simp: companions_def split: option.splits)

lemma sorted_companions: "sorted (companions gn g ks p) \<and> distinct (companions gn g ks p)"
  by (simp add: companions_def)

lemma multi_unit_mem:
  "u \<in> set (multi_unit spec gn ks ps m) \<Longrightarrow>
   wgroup u = pm_group m \<and> primaryKeys u = fst m # concat (map (companions gn (pm_group m) ks) ps)"
  by (auto simp: multi_unit_def mk_unit_def Let_def split: if_splits)

lemma resolve_multi:
  assumes "patterns spec = p0 # ps" "ps \<noteq> []" "cardinality spec = MULTI"
  shows "resolve ks spec =
     Inr (concat (map (multi_unit spec (grouping_names (p0 # ps)) ks ps)
        (order_by_group (distinct_pairs [] (primary_matches (grouping_names (p0 # ps)) p0 ks)))))"
  using assms by (simp add: resolve_def Let_def)

lemma multi_units:
  assumes "patterns spec = p0 # ps" "ps \<noteq> []" "cardinality spec = MULTI"
  shows "\<exists>us. resolve ks spec = Inr us \<and>
      (\<forall>u\<in>set us. \<exists>k c. k \<in> set ks \<and> re_match p0 k = Some c
           \<and> wgroup u = group_of (grouping_names (p0 # ps)) c
           \<and> primaryKeys u = k # concat (map (companions (grouping_names (p0 # ps)) (wgroup u) ks) ps))"
proof -
  let ?gn = "grouping_names (p0 # ps)"
  let ?pm = "primary_matches ?gn p0 ks"
  let ?us = "concat (map (multi_unit spec ?gn ks ps) (order_by_group (distinct_pairs [] ?pm)))"
  have r: "resolve ks spec = Inr ?us" using assms by (rule resolve_multi)
  have "\<forall>u\<in>set ?us. \<exists>k c. k \<in> set ks \<and> re_match p0 k = Some c
           \<and> wgroup u = group_of ?gn c
           \<and> primaryKeys u = k # concat (map (companions ?gn (wgroup u) ks) ps)"
  proof
    fix u assume "u \<in> set ?us"
    then obtain m where mm: "m \<in> set (distinct_pairs [] ?pm)" and u: "u \<in> set (multi_unit spec ?gn ks ps m)"
      by (auto simp: set_order_by_group)
    from mm distinct_pairs_subset have "m \<in> set ?pm" by blast
    then obtain k c where kc: "k \<in> set ks" "re_match p0 k = Some c" "m = (k, group_of ?gn c, variant_of ?gn c)"
      by (auto simp: primary_matches_mem)
    from multi_unit_mem[OF u] kc
    show "\<exists>k c. k \<in> set ks \<and> re_match p0 k = Some c
           \<and> wgroup u = group_of ?gn c
           \<and> primaryKeys u = k # concat (map (companions ?gn (wgroup u) ks) ps)"
      by (auto simp: pm_group_def)
  qed
  with r show ?thesis by blast
qed

lemma multi_unit_need_all:
  assumes "completeness spec = NeedAll"
  shows "multi_unit spec gn ks ps m =
     (if \<forall>p\<in>set ps. companions gn (pm_group m) ks p \<noteq> []
      then [mk_unit spec m (map (companions gn (pm_group m) ks) ps)] else [])"
  using assms by (auto simp: multi_unit_def complete_def Let_def list_all_iff)

lemma filter_units_by_group:
  "filter (\<lambda>u. wgroup u = g) (concat (map (multi_unit spec gn ks ps) ms)) =
   concat (map (multi_unit spec gn ks ps) (filter (\<lambda>m. pm_group m = g) ms))"
proof (induction ms)
  case Nil
  then show ?case by simp
next
  case (Cons m ms)
  have "\<forall>u\<in>set (multi_unit spec gn ks ps m). wgroup u = pm_group m"
    using multi_unit_mem by blast
  then have "filter (\<lambda>u. wgroup u = g) (multi_unit spec gn ks ps m) =
             (if pm_group m = g then multi_unit spec gn ks ps m else [])"
    by (auto simp: filter_empty_conv intro: filter_True)
  with Cons show ?case by simp
qed

lemma units_of_group_none:
  assumes "completeness spec = NeedAll" "\<exists>p\<in>set ps. companions gn g ks p = []"
    "\<forall>m\<in>set ms. pm_group m = g"
  shows "concat (map (multi_unit spec gn ks ps) ms) = []"
  using assms by (auto simp: multi_unit_need_all)

lemma units_of_group_all:
  assumes "completeness spec = NeedAll" "\<forall>p\<in>set ps. companions gn g ks p \<noteq> []"
    "\<forall>m\<in>set ms. pm_group m = g"
  shows "length (concat (map (multi_unit spec gn ks ps) ms)) = length ms"
  using assms(3)
proof (induction ms)
  case Nil
  then show ?case by simp
next
  case (Cons m ms)
  then have "pm_group m = g" by simp
  with assms(1,2) have "multi_unit spec gn ks ps m = [mk_unit spec m (map (companions gn g ks) ps)]"
    by (simp add: multi_unit_need_all)
  with Cons show ?case by simp
qed

lemma length_filter_order_by_group:
  "length (filter P (order_by_group ms)) = length (filter P ms)"
proof -
  have "mset (filter P (order_by_group ms)) = mset (filter P ms)"
    by (simp add: mset_order_by_group)
  then show ?thesis by (rule mset_eq_length)
qed

lemma variants_of_group:
  "length (filter (\<lambda>m. pm_group m = g) (distinct_pairs [] pm)) = card {v. \<exists>k. (k, g, v) \<in> set pm}"
proof -
  let ?dp = "distinct_pairs [] pm"
  from distinct_pairs_snd[of "[]" pm]
  have d: "distinct (map snd ?dp)" and s: "set (map snd ?dp) = snd ` set pm" by simp_all
  have "length (filter (\<lambda>m. pm_group m = g) ?dp) = length (filter (\<lambda>q. fst q = g) (map snd ?dp))"
    by (simp add: filter_map comp_def pm_group_def)
  also have "\<dots> = card (set (filter (\<lambda>q. fst q = g) (map snd ?dp)))"
    using d distinct_card[of "filter (\<lambda>q. fst q = g) (map snd ?dp)"] by simp
  also have "set (filter (\<lambda>q. fst q = g) (map snd ?dp)) = {q \<in> snd ` set pm. fst q = g}"
    using s by auto
  also have "{q \<in> snd ` set pm. fst q = g} = (\<lambda>v. (g, v)) ` {v. \<exists>k. (k, g, v) \<in> set pm}"
    by force
  also have "card ((\<lambda>v. (g, v)) ` {v. \<exists>k. (k, g, v) \<in> set pm}) = card {v. \<exists>k. (k, g, v) \<in> set pm}"
    by (rule card_image) (simp add: inj_on_def)
  finally show ?thesis .
qed

lemma multi_all_units:
  assumes "patterns spec = p0 # ps" "ps \<noteq> []" "cardinality spec = MULTI" "completeness spec = NeedAll"
  shows "\<exists>us. resolve ks spec = Inr us
       \<and> ((\<exists>p\<in>set ps. companions (grouping_names (p0 # ps)) g ks p = []) \<longrightarrow>
            filter (\<lambda>u. wgroup u = g) us = [])
       \<and> ((\<forall>p\<in>set ps. companions (grouping_names (p0 # ps)) g ks p \<noteq> []) \<longrightarrow>
            length (filter (\<lambda>u. wgroup u = g) us)
              = card {v. \<exists>k. (k, g, v) \<in> set (primary_matches (grouping_names (p0 # ps)) p0 ks)})"
proof -
  let ?gn = "grouping_names (p0 # ps)"
  let ?pm = "primary_matches ?gn p0 ks"
  let ?ms = "order_by_group (distinct_pairs [] ?pm)"
  let ?us = "concat (map (multi_unit spec ?gn ks ps) ?ms)"
  let ?mg = "filter (\<lambda>m. pm_group m = g) ?ms"
  have r: "resolve ks spec = Inr ?us" using assms(1-3) by (rule resolve_multi)
  have f: "filter (\<lambda>u. wgroup u = g) ?us = concat (map (multi_unit spec ?gn ks ps) ?mg)"
    by (rule filter_units_by_group)
  have g: "\<forall>m\<in>set ?mg. pm_group m = g" by simp
  have a: "(\<exists>p\<in>set ps. companions ?gn g ks p = []) \<longrightarrow> filter (\<lambda>u. wgroup u = g) ?us = []"
    using f units_of_group_none[OF assms(4) _ g] by simp
  have "(\<forall>p\<in>set ps. companions ?gn g ks p \<noteq> []) \<longrightarrow>
          length (filter (\<lambda>u. wgroup u = g) ?us) = length ?mg"
    using f units_of_group_all[OF assms(4) _ g] by simp
  moreover have "length ?mg = card {v. \<exists>k. (k, g, v) \<in> set ?pm}"
    by (simp only: length_filter_order_by_group variants_of_group)
  ultimately have b: "(\<forall>p\<in>set ps. companions ?gn g ks p \<noteq> []) \<longrightarrow>
          length (filter (\<lambda>u. wgroup u = g) ?us) = card {v. \<exists>k. (k, g, v) \<in> set ?pm}"
    by simp
  from r a b show ?thesis by blast
qed

text \<open>
  Claim C1. For a spec with one pattern and \<open>SINGLE\<close> cardinality over keys without
  repetition, \<open>resolve\<close> returns as many units as there are keys the pattern matches, each
  with one primary key, a matching key, and no primary key occurs twice. For the keys
  \<open>da/i-p-f\<close>, \<open>da/i-m-f\<close>, \<open>da/e-p-f\<close>, \<open>da/e-m-f\<close>, \<open>g/c\<close>, \<open>his/n\<close> and \<open>ImpDigger1\<close> it
  returns four units; the unit of \<open>da/i-p-f\<close> has group \<open>da\<close>, auxiliary keys \<open>g/c\<close>, \<open>his/n\<close>
  and label \<open>i_p_f\<close>.
\<close>

theorem single_cardinality_one_unit_per_match:
  "(patterns spec = [p0] \<and> cardinality spec = SINGLE \<and> distinct ks \<longrightarrow>
     (\<exists>us. resolve ks spec = Inr us \<and> length us = card {k \<in> set ks. matches p0 k}
        \<and> (\<forall>u\<in>set us. \<exists>k\<in>set ks. matches p0 k \<and> primaryKeys u = [k])
        \<and> distinct (concat (map primaryKeys us))))
   \<and> resolve [''da/i-p-f'', ''da/i-m-f'', ''da/e-p-f'', ''da/e-m-f'', ''g/c'', ''his/n''] ImpDigger1 =
      Inr [\<lparr>wgroup = [''da''], primaryKeys = [''da/i-p-f''],
             auxiliaryKeys = [''g/c'', ''his/n''], label = ''i_p_f''\<rparr>,
           \<lparr>wgroup = [''da''], primaryKeys = [''da/i-m-f''],
             auxiliaryKeys = [''g/c'', ''his/n''], label = ''i_m_f''\<rparr>,
           \<lparr>wgroup = [''da''], primaryKeys = [''da/e-p-f''],
             auxiliaryKeys = [''g/c'', ''his/n''], label = ''e_p_f''\<rparr>,
           \<lparr>wgroup = [''da''], primaryKeys = [''da/e-m-f''],
             auxiliaryKeys = [''g/c'', ''his/n''], label = ''e_m_f''\<rparr>]"
proof (intro conjI impI)
  assume "patterns spec = [p0] \<and> cardinality spec = SINGLE \<and> distinct ks"
  then show "\<exists>us. resolve ks spec = Inr us \<and> length us = card {k \<in> set ks. matches p0 k}
        \<and> (\<forall>u\<in>set us. \<exists>k\<in>set ks. matches p0 k \<and> primaryKeys u = [k])
        \<and> distinct (concat (map primaryKeys us))"
    using single_units by blast
qed (simp add: ImpDigger1_def ImpDigger1_set_fignum_def ImpDigger1_numpattern_def resolve_eval)

theorem single_cardinality_one_unit_per_match_witness:
  "patterns ImpDigger1 = [hd (patterns ImpDigger1)] \<and> cardinality ImpDigger1 = SINGLE
   \<and> distinct [''da/i-p-f'', ''da/i-m-f'', ''da/e-p-f'', ''da/e-m-f'', ''g/c'', ''his/n'']
   \<and> (\<exists>us. resolve [''da/i-p-f'', ''da/i-m-f'', ''da/e-p-f'', ''da/e-m-f'', ''g/c'', ''his/n''] ImpDigger1 = Inr us
         \<and> length us = 4
         \<and> length us = card {k \<in> set [''da/i-p-f'', ''da/i-m-f'', ''da/e-p-f'', ''da/e-m-f'', ''g/c'', ''his/n''].
                               matches (hd (patterns ImpDigger1)) k}
         \<and> distinct (concat (map primaryKeys us)))"
proof -
  have a: "patterns ImpDigger1 = [hd (patterns ImpDigger1)]" by (simp add: ImpDigger1_def)
  have b: "cardinality ImpDigger1 = SINGLE" by (simp add: ImpDigger1_def)
  have c: "distinct [''da/i-p-f'', ''da/i-m-f'', ''da/e-p-f'', ''da/e-m-f'', ''g/c'', ''his/n'']" by simp
  from single_cardinality_one_unit_per_match
         [where spec = ImpDigger1 and ?p0.0 = "hd (patterns ImpDigger1)"
            and ks = "[''da/i-p-f'', ''da/i-m-f'', ''da/e-p-f'', ''da/e-m-f'', ''g/c'', ''his/n'']"]
       a b c
  show ?thesis by auto
qed

text \<open>
  Claim C2. For a spec with several patterns, \<open>MULTI\<close> cardinality and completeness \<open>'ALL'\<close>:
  a group in which some companion pattern has no match gets no unit, and a group in which
  every companion pattern has a match gets as many units as the primary pattern has distinct
  variant values in it. For the keys \<open>his/i\<close>, \<open>his/e\<close>, \<open>his/n\<close>, \<open>g/c\<close> and \<open>ImpDigger2\<close>
  there are two units, with primary keys \<open>his/i\<close>, \<open>his/n\<close> and \<open>his/e\<close>, \<open>his/n\<close>.
\<close>

theorem multi_all_one_unit_per_variant:
  "(patterns spec = p0 # ps \<and> ps \<noteq> [] \<and> cardinality spec = MULTI \<and> completeness spec = NeedAll \<longrightarrow>
     (\<exists>us. resolve ks spec = Inr us
       \<and> ((\<exists>p\<in>set ps. companions (grouping_names (p0 # ps)) g ks p = []) \<longrightarrow>
            filter (\<lambda>u. wgroup u = g) us = [])
       \<and> ((\<forall>p\<in>set ps. companions (grouping_names (p0 # ps)) g ks p \<noteq> []) \<longrightarrow>
            length (filter (\<lambda>u. wgroup u = g) us)
              = card {v. \<exists>k. (k, g, v) \<in> set (primary_matches (grouping_names (p0 # ps)) p0 ks)})))
   \<and> resolve [''his/i'', ''his/e'', ''his/n'', ''g/c''] ImpDigger2 =
      Inr [\<lparr>wgroup = [''his''], primaryKeys = [''his/i'', ''his/n''],
             auxiliaryKeys = [''g/c''], label = ''i''\<rparr>,
           \<lparr>wgroup = [''his''], primaryKeys = [''his/e'', ''his/n''],
             auxiliaryKeys = [''g/c''], label = ''e''\<rparr>]"
proof (intro conjI impI)
  assume "patterns spec = p0 # ps \<and> ps \<noteq> [] \<and> cardinality spec = MULTI \<and> completeness spec = NeedAll"
  then show "\<exists>us. resolve ks spec = Inr us
       \<and> ((\<exists>p\<in>set ps. companions (grouping_names (p0 # ps)) g ks p = []) \<longrightarrow>
            filter (\<lambda>u. wgroup u = g) us = [])
       \<and> ((\<forall>p\<in>set ps. companions (grouping_names (p0 # ps)) g ks p \<noteq> []) \<longrightarrow>
            length (filter (\<lambda>u. wgroup u = g) us)
              = card {v. \<exists>k. (k, g, v) \<in> set (primary_matches (grouping_names (p0 # ps)) p0 ks)})"
    using multi_all_units by blast
qed (simp add: ImpDigger2_def ImpDigger2_set_fignum_def resolve_eval)

theorem multi_all_one_unit_per_variant_witness:
  "patterns ImpDigger2 = hd (patterns ImpDigger2) # tl (patterns ImpDigger2)
   \<and> tl (patterns ImpDigger2) \<noteq> [] \<and> cardinality ImpDigger2 = MULTI \<and> completeness ImpDigger2 = NeedAll
   \<and> tl (patterns ImpDigger2) = [hd (tl (patterns ImpDigger2))]
   \<and> companions (grouping_names (patterns ImpDigger2)) [''his''] [''his/i'', ''his/e'', ''his/n'', ''g/c'']
         (hd (tl (patterns ImpDigger2))) = [''his/n'']
   \<and> companions (grouping_names (patterns ImpDigger2)) [''g''] [''his/i'', ''his/e'', ''his/n'', ''g/c'']
         (hd (tl (patterns ImpDigger2))) = []
   \<and> (\<exists>us. resolve [''his/i'', ''his/e'', ''his/n'', ''g/c''] ImpDigger2 = Inr us
         \<and> length (filter (\<lambda>u. wgroup u = [''his'']) us) = 2
         \<and> length (filter (\<lambda>u. wgroup u = [''his'']) us)
             = card {v. \<exists>k. (k, [''his''], v) \<in> set (primary_matches (grouping_names (patterns ImpDigger2))
                                   (hd (patterns ImpDigger2)) [''his/i'', ''his/e'', ''his/n'', ''g/c''])}
         \<and> filter (\<lambda>u. wgroup u = [''g'']) us = [])"
proof -
  let ?L = "[''his/i'', ''his/e'', ''his/n'', ''g/c'']"
  have a: "patterns ImpDigger2 = hd (patterns ImpDigger2) # tl (patterns ImpDigger2)"
    by (simp add: ImpDigger2_def)
  have b: "tl (patterns ImpDigger2) \<noteq> []" "cardinality ImpDigger2 = MULTI" "completeness ImpDigger2 = NeedAll"
    by (simp_all add: ImpDigger2_def)
  have c: "\<forall>p\<in>set (tl (patterns ImpDigger2)).
         companions (grouping_names (patterns ImpDigger2)) [''his''] ?L p \<noteq> []"
    by (simp add: ImpDigger2_def resolve_eval)
  have e: "resolve ?L ImpDigger2 =
      Inr [\<lparr>wgroup = [''his''], primaryKeys = [''his/i'', ''his/n''],
             auxiliaryKeys = [''g/c''], label = ''i''\<rparr>,
           \<lparr>wgroup = [''his''], primaryKeys = [''his/e'', ''his/n''],
             auxiliaryKeys = [''g/c''], label = ''e''\<rparr>]"
    using multi_all_one_unit_per_variant by blast
  from multi_all_one_unit_per_variant
         [where spec = ImpDigger2 and ?p0.0 = "hd (patterns ImpDigger2)" and ps = "tl (patterns ImpDigger2)"
            and ks = ?L and g = "[''his'']"]
       a b c
  have f: "length (filter (\<lambda>u. wgroup u = [''his'']) (projr (resolve ?L ImpDigger2)))
             = card {v. \<exists>k. (k, [''his''], v) \<in> set (primary_matches (grouping_names (patterns ImpDigger2))
                                   (hd (patterns ImpDigger2)) ?L)}"
    by auto
  have c': "tl (patterns ImpDigger2) = [hd (tl (patterns ImpDigger2))]"
    by (simp add: ImpDigger2_def)
  have d': "companions (grouping_names (patterns ImpDigger2)) [''his''] ?L (hd (tl (patterns ImpDigger2)))
              = [''his/n'']"
       "companions (grouping_names (patterns ImpDigger2)) [''g''] ?L (hd (tl (patterns ImpDigger2))) = []"
    by (simp_all add: ImpDigger2_def resolve_eval)
  from a b c' d' e f show ?thesis by simp
qed

text \<open>
  Claim C3. Under \<open>MULTI\<close> cardinality the primary keys of a unit are its primary match
  followed, in pattern order, by the companions of each companion pattern, and the
  companions of a pattern in a group are all the keys the pattern matches with that group
  value, sorted and without repetition. For the nine keys of groups \<open>s0\<close>, \<open>s2\<close>, \<open>g\<close> and
  \<open>ImpDigger3\<close>, with its explicit list asking for an \<open>x\<close> and a \<open>y\<close> key, there are four
  units of three primary keys each, two in \<open>s0\<close> and two in \<open>s2\<close>.
\<close>

theorem multi_keeps_every_companion:
  "(patterns spec = p0 # ps \<and> ps \<noteq> [] \<and> cardinality spec = MULTI \<longrightarrow>
     (\<exists>us. resolve ks spec = Inr us \<and>
       (\<forall>u\<in>set us. \<exists>k c. k \<in> set ks \<and> re_match p0 k = Some c
           \<and> wgroup u = group_of (grouping_names (p0 # ps)) c
           \<and> primaryKeys u = k # concat (map (companions (grouping_names (p0 # ps)) (wgroup u) ks) ps))))
   \<and> set (companions gn g ks p) = {k \<in> set ks. \<exists>c. re_match p k = Some c \<and> group_of gn c = g}
   \<and> sorted (companions gn g ks p) \<and> distinct (companions gn g ks p)
   \<and> resolve [''s0/p'', ''s0/a'', ''s0/x'', ''s0/y'', ''s2/p'', ''s2/a'', ''s2/x'', ''s2/y'', ''g/c''] ImpDigger3 =
      Inr [\<lparr>wgroup = [''s0''], primaryKeys = [''s0/p'', ''s0/x'', ''s0/y''],
             auxiliaryKeys = [''g/c''], label = ''p''\<rparr>,
           \<lparr>wgroup = [''s0''], primaryKeys = [''s0/a'', ''s0/x'', ''s0/y''],
             auxiliaryKeys = [''g/c''], label = ''a''\<rparr>,
           \<lparr>wgroup = [''s2''], primaryKeys = [''s2/p'', ''s2/x'', ''s2/y''],
             auxiliaryKeys = [''g/c''], label = ''p''\<rparr>,
           \<lparr>wgroup = [''s2''], primaryKeys = [''s2/a'', ''s2/x'', ''s2/y''],
             auxiliaryKeys = [''g/c''], label = ''a''\<rparr>]"
proof (intro conjI impI)
  assume "patterns spec = p0 # ps \<and> ps \<noteq> [] \<and> cardinality spec = MULTI"
  then show "\<exists>us. resolve ks spec = Inr us \<and>
       (\<forall>u\<in>set us. \<exists>k c. k \<in> set ks \<and> re_match p0 k = Some c
           \<and> wgroup u = group_of (grouping_names (p0 # ps)) c
           \<and> primaryKeys u = k # concat (map (companions (grouping_names (p0 # ps)) (wgroup u) ks) ps))"
    using multi_units by blast
next
  show "set (companions gn g ks p) = {k \<in> set ks. \<exists>c. re_match p k = Some c \<and> group_of gn c = g}"
    by (rule set_companions)
next
  show "sorted (companions gn g ks p)" by (simp add: sorted_companions)
next
  show "distinct (companions gn g ks p)" by (simp add: sorted_companions)
qed (simp add: ImpDigger3_def ImpDigger3_set_fignum_def resolve_eval)

theorem multi_keeps_every_companion_witness:
  "patterns ImpDigger3 = hd (patterns ImpDigger3) # tl (patterns ImpDigger3)
   \<and> tl (patterns ImpDigger3) \<noteq> [] \<and> cardinality ImpDigger3 = MULTI
   \<and> (\<exists>us. resolve [''s0/p'', ''s0/a'', ''s0/x'', ''s0/y'', ''s2/p'', ''s2/a'', ''s2/x'', ''s2/y'', ''g/c'']
                 ImpDigger3 = Inr us
         \<and> length us = 4
         \<and> (\<forall>u\<in>set us. length (primaryKeys u) = 3)
         \<and> length (filter (\<lambda>u. wgroup u = [''s0'']) us) = 2
         \<and> length (filter (\<lambda>u. wgroup u = [''s2'']) us) = 2
         \<and> (\<forall>u\<in>set us. \<exists>k c. k \<in> set [''s0/p'', ''s0/a'', ''s0/x'', ''s0/y'', ''s2/p'', ''s2/a'', ''s2/x'', ''s2/y'', ''g/c'']
               \<and> re_match (hd (patterns ImpDigger3)) k = Some c
               \<and> wgroup u = group_of (grouping_names (patterns ImpDigger3)) c
               \<and> primaryKeys u = k # concat (map (companions (grouping_names (patterns ImpDigger3)) (wgroup u)
                     [''s0/p'', ''s0/a'', ''s0/x'', ''s0/y'', ''s2/p'', ''s2/a'', ''s2/x'', ''s2/y'', ''g/c''])
                     (tl (patterns ImpDigger3)))))"
proof -
  let ?L = "[''s0/p'', ''s0/a'', ''s0/x'', ''s0/y'', ''s2/p'', ''s2/a'', ''s2/x'', ''s2/y'', ''g/c'']"
  have a: "patterns ImpDigger3 = hd (patterns ImpDigger3) # tl (patterns ImpDigger3)"
    by (simp add: ImpDigger3_def)
  have b: "tl (patterns ImpDigger3) \<noteq> []" "cardinality ImpDigger3 = MULTI"
    by (simp_all add: ImpDigger3_def)
  have e: "resolve ?L ImpDigger3 =
      Inr [\<lparr>wgroup = [''s0''], primaryKeys = [''s0/p'', ''s0/x'', ''s0/y''],
             auxiliaryKeys = [''g/c''], label = ''p''\<rparr>,
           \<lparr>wgroup = [''s0''], primaryKeys = [''s0/a'', ''s0/x'', ''s0/y''],
             auxiliaryKeys = [''g/c''], label = ''a''\<rparr>,
           \<lparr>wgroup = [''s2''], primaryKeys = [''s2/p'', ''s2/x'', ''s2/y''],
             auxiliaryKeys = [''g/c''], label = ''p''\<rparr>,
           \<lparr>wgroup = [''s2''], primaryKeys = [''s2/a'', ''s2/x'', ''s2/y''],
             auxiliaryKeys = [''g/c''], label = ''a''\<rparr>]"
    using multi_keeps_every_companion by blast
  have prem: "patterns ImpDigger3 = hd (patterns ImpDigger3) # tl (patterns ImpDigger3)
      \<and> tl (patterns ImpDigger3) \<noteq> [] \<and> cardinality ImpDigger3 = MULTI"
    using a b by (intro conjI)
  note inst = multi_keeps_every_companion
         [where spec = ImpDigger3 and ?p0.0 = "hd (patterns ImpDigger3)" and ps = "tl (patterns ImpDigger3)"
            and ks = ?L, THEN conjunct1, THEN mp, OF prem]
  then obtain us where u: "resolve ?L ImpDigger3 = Inr us"
    and f: "\<forall>u\<in>set us. \<exists>k c. k \<in> set ?L
               \<and> re_match (hd (patterns ImpDigger3)) k = Some c
               \<and> wgroup u = group_of (grouping_names (hd (patterns ImpDigger3) # tl (patterns ImpDigger3))) c
               \<and> primaryKeys u = k # concat (map (companions
                     (grouping_names (hd (patterns ImpDigger3) # tl (patterns ImpDigger3))) (wgroup u) ?L)
                     (tl (patterns ImpDigger3)))"
    by (elim exE conjE)
  from f a have f': "\<forall>u\<in>set us. \<exists>k c. k \<in> set ?L
               \<and> re_match (hd (patterns ImpDigger3)) k = Some c
               \<and> wgroup u = group_of (grouping_names (patterns ImpDigger3)) c
               \<and> primaryKeys u = k # concat (map (companions (grouping_names (patterns ImpDigger3)) (wgroup u) ?L)
                     (tl (patterns ImpDigger3)))"
    by (simp only:)
  from u e have us: "us = [\<lparr>wgroup = [''s0''], primaryKeys = [''s0/p'', ''s0/x'', ''s0/y''],
             auxiliaryKeys = [''g/c''], label = ''p''\<rparr>,
           \<lparr>wgroup = [''s0''], primaryKeys = [''s0/a'', ''s0/x'', ''s0/y''],
             auxiliaryKeys = [''g/c''], label = ''a''\<rparr>,
           \<lparr>wgroup = [''s2''], primaryKeys = [''s2/p'', ''s2/x'', ''s2/y''],
             auxiliaryKeys = [''g/c''], label = ''p''\<rparr>,
           \<lparr>wgroup = [''s2''], primaryKeys = [''s2/a'', ''s2/x'', ''s2/y''],
             auxiliaryKeys = [''g/c''], label = ''a''\<rparr>]"
    by (simp only: sum.inject)
  have g: "length us = 4 \<and> (\<forall>u\<in>set us. length (primaryKeys u) = 3)
         \<and> length (filter (\<lambda>u. wgroup u = [''s0'']) us) = 2
         \<and> length (filter (\<lambda>u. wgroup u = [''s2'']) us) = 2"
    by (simp add: us)
  from u f' g have "\<exists>us. resolve ?L ImpDigger3 = Inr us
         \<and> length us = 4
         \<and> (\<forall>u\<in>set us. length (primaryKeys u) = 3)
         \<and> length (filter (\<lambda>u. wgroup u = [''s0'']) us) = 2
         \<and> length (filter (\<lambda>u. wgroup u = [''s2'']) us) = 2
         \<and> (\<forall>u\<in>set us. \<exists>k c. k \<in> set ?L
               \<and> re_match (hd (patterns ImpDigger3)) k = Some c
               \<and> wgroup u = group_of (grouping_names (patterns ImpDigger3)) c
               \<and> primaryKeys u = k # concat (map (companions (grouping_names (patterns ImpDigger3)) (wgroup u) ?L)
                     (tl (patterns ImpDigger3))))"
    by (intro exI[of _ us] conjI) (elim conjE, assumption)+
  with a b show ?thesis by blast
qed

end
